theory Spec2Isabelle
  imports Main
begin

section \<open>Python values, errors and the model state\<close>

text \<open>
  The values the parameter store and the node records hold. The embedding covers
  \<^verbatim>\<open>None\<close>, booleans, (unbounded) integers and strings: the types of the defaults
  written in \<^verbatim>\<open>AgentModel.__init__\<close> and of the example callbacks.
\<close>

datatype pyval = PyNone | PyBool bool | PyInt int | PyStr string

text \<open>
  Exceptions are values. \<open>PyException msg\<close> is \<^verbatim>\<open>raise Exception(msg)\<close>;
  \<open>KeyError\<close>, \<open>TypeError\<close> and \<open>AttributeError\<close> are raised by the interpreter on a
  missing dictionary key, an operation on a value of the wrong type, and an attribute read
  on an object that lacks it; \<open>NetworkXError\<close> is the graph library's error;
  \<open>CallbackError\<close> is whatever an injected callable raises.
\<close>

datatype error =
  KeyError | TypeError | AttributeError | NetworkXError | PyException string | CallbackError string

text \<open>
  A graph of the graph library: its nodes in insertion order, each with its data
  dictionary, and its undirected edges in insertion order (each unordered pair once).
  Node identifiers are the integers \<open>0, 1, \<dots>\<close> the generators produce.
\<close>

record nx_graph =
  nodes :: "(nat \<times> (string \<rightharpoonup> pyval)) list"
  edges :: "(nat \<times> nat) list"

text \<open>What a Python variable such as \<^verbatim>\<open>self.__graph\<close> may hold: a plain value or a graph.\<close>

datatype pyobj = Val pyval | Graph nx_graph

text \<open>
  Python truthiness (\<^verbatim>\<open>if x\<close>, \<^verbatim>\<open>not x\<close>). A graph defines \<^verbatim>\<open>__len__\<close> as its number
  of nodes, so the graph with no node is falsy.
\<close>

fun truthy :: "pyobj \<Rightarrow> bool" where
  "truthy (Val PyNone) = False"
| "truthy (Val (PyBool b)) = b"
| "truthy (Val (PyInt i)) = (i \<noteq> 0)"
| "truthy (Val (PyStr s)) = (s \<noteq> [])"
| "truthy (Graph g) = (nodes g \<noteq> [])"

text \<open>\<^verbatim>\<open>isinstance(x, nx.Graph)\<close>.\<close>

fun isinstance_Graph :: "pyobj \<Rightarrow> bool" where
  "isinstance_Graph (Graph g) = True"
| "isinstance_Graph (Val v) = False"

text \<open>
  The fields of \<^verbatim>\<open>AgentModel\<close>. The two injected callables are kept as handles of
  an arbitrary type \<open>'f\<close> (\<open>None\<close> is Python's \<^verbatim>\<open>None\<close>, the unset field); what a handle
  does when called is given by an interpretation passed to the operations that call it.
\<close>

record 'f AgentModel =
  parameters :: "string \<rightharpoonup> pyval"
  graph :: pyobj
  initial_data_function :: "'f option"
  timestep_function :: "'f option"
  MAX_TIMESTEPS :: int

text \<open>
  A method call yields an outcome, the value returned or the exception raised, and the
  state of the model afterwards. The state is part of the outcome of a failed call too:
  what has been assigned before a \<^verbatim>\<open>raise\<close> stays assigned.
\<close>

type_synonym ('a, 'f) outcome = "(error + 'a) \<times> 'f AgentModel"

subsection \<open>Construction and the parameter store\<close>

definition init :: "'f AgentModel" where
  "init =
     \<lparr> parameters =
         [''num_nodes'' \<mapsto> PyInt 3,
          ''graph_type'' \<mapsto> PyStr ''complete'',
          ''convergence_data_key'' \<mapsto> PyNone,
          ''convergence_std_dev'' \<mapsto> PyInt 100],
       graph = Val PyNone,
       initial_data_function = None,
       timestep_function = None,
       MAX_TIMESTEPS = 100000 \<rparr>"

definition update_parameters :: "(string \<rightharpoonup> pyval) \<Rightarrow> 'f AgentModel \<Rightarrow> (unit, 'f) outcome" where
  "update_parameters patch m = (Inr (), m\<lparr>parameters := parameters m ++ patch\<rparr>)"

text \<open>
  The loop of \<^verbatim>\<open>delete_parameters\<close>: each key is checked against the current
  dictionary and the four literal names, then popped.
\<close>

fun delete_loop :: "string list \<Rightarrow> 'f AgentModel \<Rightarrow> (bool, 'f) outcome" where
  "delete_loop [] m = (Inr True, m)"
| "delete_loop (param # rest) m =
     (if parameters m param = None \<or>
         param \<in> {''num_nodes'', ''graph_type'', ''convergence_data_key'', ''convergence_std_dev''}
      then (Inl KeyError, m)
      else delete_loop rest (m\<lparr>parameters := (parameters m)(param := None)\<rparr>))"

text \<open>
  \<^verbatim>\<open>delete_parameters(parameters=None)\<close>: the argument is \<open>None\<close> when omitted;
  \<^verbatim>\<open>not parameters\<close> holds for \<^verbatim>\<open>None\<close> and for the empty list.
\<close>

definition delete_parameters :: "string list option \<Rightarrow> 'f AgentModel \<Rightarrow> (bool, 'f) outcome" where
  "delete_parameters keys m =
     (if keys = None \<or> keys = Some []
      then (Inr True,
            m\<lparr>parameters :=
                [''num_nodes'' \<mapsto> PyInt 3,
                 ''graph_type'' \<mapsto> PyStr ''complete'',
                 ''convergence_data_key'' \<mapsto> PyNone,
                 ''convergence_std_dev'' \<mapsto> PyInt 100]\<rparr>)
      else delete_loop (the keys) m)"

definition change_max_timesteps :: "int \<Rightarrow> 'f AgentModel \<Rightarrow> 'f AgentModel" where
  "change_max_timesteps timesteps m = m\<lparr>MAX_TIMESTEPS := timesteps\<rparr>"

text \<open>\<^verbatim>\<open>__getitem__\<close> and \<^verbatim>\<open>__setitem__\<close>.\<close>

definition getitem :: "'f AgentModel \<Rightarrow> string \<Rightarrow> error + pyval" where
  "getitem m parameter = (case parameters m parameter of None \<Rightarrow> Inl KeyError | Some v \<Rightarrow> Inr v)"

definition setitem :: "string \<Rightarrow> pyval \<Rightarrow> 'f AgentModel \<Rightarrow> 'f AgentModel" where
  "setitem parameter v m = m\<lparr>parameters := (parameters m)(parameter \<mapsto> v)\<rparr>"

subsection \<open>The graph slot and the injected callables\<close>

definition set_graph :: "pyobj \<Rightarrow> 'f AgentModel \<Rightarrow> (unit, 'f) outcome" where
  "set_graph g m =
     (if truthy g \<and> \<not> isinstance_Graph g
      then (Inl (PyException ''The passed parameter is not a graph object.''), m)
      else (Inr (), m\<lparr>graph := g\<rparr>))"

definition get_graph :: "'f AgentModel \<Rightarrow> pyobj" where
  "get_graph m = graph m"

definition set_initial_data_function :: "'f option \<Rightarrow> 'f AgentModel \<Rightarrow> 'f AgentModel" where
  "set_initial_data_function f m = m\<lparr>initial_data_function := f\<rparr>"

definition set_timestep_function :: "'f option \<Rightarrow> 'f AgentModel \<Rightarrow> 'f AgentModel" where
  "set_timestep_function f m = m\<lparr>timestep_function := f\<rparr>"

section \<open>The graph library's generators\<close>

text \<open>
  The graph library (\<^verbatim>\<open>networkx\<close>, imported as \<^verbatim>\<open>nx\<close>) is an external collaborator
  and not part of the repository. What the model needs of it is modelled in this section
  from the spec, which names the three generators \<^verbatim>\<open>completeGraph(n)\<close>,
  \<^verbatim>\<open>cycleGraph(n)\<close> and \<^verbatim>\<open>wheelGraph(n)\<close>, each returning a node and edge structure
  with one mutable record per node and a stable iteration order, and from the library's
  documented construction.
\<close>

text \<open>
  Modelled from the spec: the graph operations of the library that is not in the
  repository. An edge joins two nodes in either direction and is held once; a graph
  from a node count has the nodes \<open>0, \<dots>, n - 1\<close>, each with an empty record.
\<close>

definition has_edge :: "nx_graph \<Rightarrow> nat \<Rightarrow> nat \<Rightarrow> bool" where
  "has_edge g u v = ((u, v) \<in> set (edges g) \<or> (v, u) \<in> set (edges g))"

definition add_edge :: "nat \<times> nat \<Rightarrow> nx_graph \<Rightarrow> nx_graph" where
  "add_edge e g = (if has_edge g (fst e) (snd e) then g else g\<lparr>edges := edges g @ [e]\<rparr>)"

definition add_edges_from :: "(nat \<times> nat) list \<Rightarrow> nx_graph \<Rightarrow> nx_graph" where
  "add_edges_from es g = fold add_edge es g"

definition empty_graph :: "nat \<Rightarrow> nx_graph" where
  "empty_graph n = \<lparr> nodes = map (\<lambda>i. (i, Map.empty)) [0..<n], edges = [] \<rparr>"

definition number_of_nodes :: "nx_graph \<Rightarrow> nat" where
  "number_of_nodes g = length (nodes g)"

definition number_of_edges :: "nx_graph \<Rightarrow> nat" where
  "number_of_edges g = length (edges g)"

text \<open>
  The pairs the generators enumerate: all pairs of a list in order
  (\<^verbatim>\<open>itertools.combinations(nodes, 2)\<close>), and each element with its successor, the last
  with the first (\<^verbatim>\<open>pairwise(nodes, cyclic=True)\<close>).
\<close>

fun combinations2 :: "nat list \<Rightarrow> (nat \<times> nat) list" where
  "combinations2 [] = []"
| "combinations2 (x # xs) = map (Pair x) xs @ combinations2 xs"

definition pairwise_cyclic :: "nat list \<Rightarrow> (nat \<times> nat) list" where
  "pairwise_cyclic xs = (case xs of [] \<Rightarrow> [] | x # rest \<Rightarrow> zip xs (rest @ [x]))"

text \<open>
  Modelled from the spec: the complete graph on \<open>n\<close> nodes of the library that is not in
  the repository, every pair of nodes joined.
\<close>

definition complete_graph :: "nat \<Rightarrow> nx_graph" where
  "complete_graph n =
     (if 1 < n then add_edges_from (combinations2 [0..<n]) (empty_graph n) else empty_graph n)"

text \<open>
  Modelled from the spec: the cycle graph on \<open>n\<close> nodes of the library that is not in the
  repository, each node joined to the next and the last to the first.
\<close>

definition cycle_graph :: "nat \<Rightarrow> nx_graph" where
  "cycle_graph n = add_edges_from (pairwise_cyclic [0..<n]) (empty_graph n)"

text \<open>
  Modelled from the spec: the wheel graph on \<open>n\<close> nodes of the library that is not in the
  repository. Node \<open>0\<close> is the hub, joined to every rim node; the rim is closed to a cycle
  when it has more than one node.
\<close>

definition wheel_graph :: "nat \<Rightarrow> nx_graph" where
  "wheel_graph n =
     (if 1 < n
      then (let G = add_edges_from (map (Pair 0) [1..<n]) (empty_graph n)
            in if 1 < n - 1 then add_edges_from (pairwise_cyclic [1..<n]) G else G)
      else empty_graph n)"

text \<open>
  Modelled from the spec: how the generators of the library that is not in the repository
  read their argument. The node count they receive is a Python value. An integer (or a
  boolean, which is an integer in Python) is a count, and a negative one is refused by
  the library; \<^verbatim>\<open>None\<close> is neither a number nor a container of nodes. A string would be
  read by the library as a container of node names; graphs with named nodes are outside
  this embedding, which reports them as a type error.
\<close>

fun nodes_or_number :: "pyval \<Rightarrow> error + nat" where
  "nodes_or_number (PyInt n) = (if n < 0 then Inl NetworkXError else Inr (nat n))"
| "nodes_or_number (PyBool b) = Inr (if b then 1 else 0)"
| "nodes_or_number PyNone = Inl TypeError"
| "nodes_or_number (PyStr s) = Inl TypeError"

text \<open>\<^verbatim>\<open>nx.complete_graph\<close>, \<^verbatim>\<open>nx.cycle_graph\<close> and \<^verbatim>\<open>nx.wheel_graph\<close> as the model calls them.\<close>

definition nx_complete_graph :: "pyval \<Rightarrow> error + nx_graph" where
  "nx_complete_graph num_nodes = map_sum id complete_graph (nodes_or_number num_nodes)"

definition nx_cycle_graph :: "pyval \<Rightarrow> error + nx_graph" where
  "nx_cycle_graph num_nodes = map_sum id cycle_graph (nodes_or_number num_nodes)"

definition nx_wheel_graph :: "pyval \<Rightarrow> error + nx_graph" where
  "nx_wheel_graph num_nodes = map_sum id wheel_graph (nodes_or_number num_nodes)"

section \<open>Initialising the graph\<close>

text \<open>\<^verbatim>\<open>self.__graph.nodes[node].update(initial_data)\<close>.\<close>

definition update_node :: "nat \<Rightarrow> (string \<rightharpoonup> pyval) \<Rightarrow> nx_graph \<Rightarrow> nx_graph" where
  "update_node node d g =
     g\<lparr>nodes := map (\<lambda>(i, r). if i = node then (i, r ++ d) else (i, r)) (nodes g)\<rparr>"

text \<open>
  The loop over the nodes of the new graph. The nodes to visit are those of the graph in
  the slot when the loop starts. At every node the initializer is read from the model and
  called with the model itself: it returns a dictionary or raises, and it may change any
  part of the model through the model's methods and the graph handle. The dictionary is
  then merged into the record of the node in the graph that the slot holds after the call
  (\<^verbatim>\<open>self.__graph.nodes[node].update(initial_data)\<close>): an attribute error when the slot
  holds no graph, a key error when that graph lacks the node.

  \<open>call f k m\<close> is the outcome of calling the handle \<open>f\<close> on the model \<open>m\<close> for the
  \<open>k\<close>-th time: the counter stands for whatever hidden state (a random number generator
  in the example callback) makes two calls differ. Graphs are values here: a callback that
  puts another graph in the slot and one that rewires the graph in place are the same
  change of state. (Python also refuses to go on iterating a dictionary of nodes that has
  changed size in place; the embedding follows the callback that replaces the graph.)
\<close>

fun populate ::
  "('f \<Rightarrow> nat \<Rightarrow> 'f AgentModel \<Rightarrow> (string \<rightharpoonup> pyval, 'f) outcome) \<Rightarrow> nat list \<Rightarrow> nat \<Rightarrow>
   'f AgentModel \<Rightarrow> (unit, 'f) outcome" where
  "populate call [] k m = (Inr (), m)"
| "populate call (node # rest) k m =
     (case initial_data_function m of
        None \<Rightarrow> (Inl TypeError, m)
      | Some f \<Rightarrow>
          (case call f k m of
             (Inl e, m') \<Rightarrow> (Inl e, m')
           | (Inr initial_data, m') \<Rightarrow>
               (case graph m' of
                  Val v \<Rightarrow> (Inl AttributeError, m')
                | Graph g \<Rightarrow>
                    if node \<in> set (map fst (nodes g))
                    then populate call rest (Suc k)
                           (m'\<lparr>graph := Graph (update_node node initial_data g)\<rparr>)
                    else (Inl KeyError, m'))))"

text \<open>
  \<^verbatim>\<open>initialize_graph\<close>: the two parameter reads, the new graph assigned to the slot, then
  the test of the initializer, then the loop.
\<close>

definition initialize_graph ::
  "('f \<Rightarrow> nat \<Rightarrow> 'f AgentModel \<Rightarrow> (string \<rightharpoonup> pyval, 'f) outcome) \<Rightarrow> 'f AgentModel \<Rightarrow>
   (unit, 'f) outcome" where
  "initialize_graph call m =
     (case getitem m ''num_nodes'' of
        Inl e \<Rightarrow> (Inl e, m)
      | Inr num_nodes \<Rightarrow>
     (case getitem m ''graph_type'' of
        Inl e \<Rightarrow> (Inl e, m)
      | Inr graph_type \<Rightarrow>
     (case (if graph_type = PyStr ''complete'' then nx_complete_graph num_nodes
            else if graph_type = PyStr ''cycle'' then nx_cycle_graph num_nodes
            else nx_wheel_graph num_nodes) of
        Inl e \<Rightarrow> (Inl e, m)
      | Inr g \<Rightarrow>
          (let m1 = m\<lparr>graph := Graph g\<rparr> in
           case initial_data_function m1 of
             None \<Rightarrow> (Inl (PyException ''Initial data function is not set.''), m1)
           | Some f \<Rightarrow> populate call (map fst (nodes g)) 0 m1))))"

section \<open>Timesteps and convergence\<close>

text \<open>
  \<open>step f m\<close> is the outcome of calling the stepper handle \<open>f\<close> on the model \<open>m\<close>: the
  stepper receives the model itself and may change any part of it through the model's
  methods, or raise; what it returns is ignored.
\<close>

definition timestep :: "('f \<Rightarrow> 'f AgentModel \<Rightarrow> (unit, 'f) outcome) \<Rightarrow> 'f AgentModel \<Rightarrow> (unit, 'f) outcome" where
  "timestep step m =
     (case timestep_function m of
        None \<Rightarrow> (Inl (PyException ''Timestep function is not set.''), m)
      | Some f \<Rightarrow> step f m)"

text \<open>
  The list comprehension of \<^verbatim>\<open>is_converged\<close>: \<^verbatim>\<open>node_data[data_key]\<close> for every node,
  in order. Node records are keyed by strings, so a key that is not a string is absent
  from every record.
\<close>

fun lookup_all :: "pyval \<Rightarrow> (nat \<times> (string \<rightharpoonup> pyval)) list \<Rightarrow> error + pyval list" where
  "lookup_all data_key [] = Inr []"
| "lookup_all data_key ((node, node_data) # rest) =
     (case (case data_key of PyStr k \<Rightarrow> node_data k | _ \<Rightarrow> None) of
        None \<Rightarrow> Inl KeyError
      | Some v \<Rightarrow> (case lookup_all data_key rest of Inl e \<Rightarrow> Inl e | Inr vs \<Rightarrow> Inr (v # vs)))"

text \<open>
  The numeric library (\<^verbatim>\<open>numpy\<close>, imported as \<^verbatim>\<open>np\<close>) is an external collaborator and
  not part of the repository. What \<^verbatim>\<open>is_converged\<close> asks of it,
  \<^verbatim>\<open>np.array(values).std() <= std_dev\<close>, is computed by the library in 64-bit floating
  point and is taken as a parameter of the model: \<open>std_le values std_dev\<close> is the
  library's answer, or the exception it raises (on values that are not numbers, or on a
  threshold that is not one).
\<close>

type_synonym std_test = "pyval list \<Rightarrow> pyval \<Rightarrow> error + bool"

definition is_converged :: "std_test \<Rightarrow> 'f AgentModel \<Rightarrow> pyval \<Rightarrow> pyval \<Rightarrow> error + bool" where
  "is_converged std_le m data_key std_dev =
     (case graph m of
        Val v \<Rightarrow> Inl AttributeError
      | Graph g \<Rightarrow>
     (case lookup_all data_key (nodes g) of
        Inl e \<Rightarrow> Inl e
      | Inr vals \<Rightarrow> std_le vals std_dev))"

text \<open>
  \<^verbatim>\<open>self.__graph.nodes(data=True)\<close>, which \<^verbatim>\<open>run_to_convergence\<close> prints before the
  loop and after every step: it needs a graph in the slot.
\<close>

definition nodes_data :: "'f AgentModel \<Rightarrow> error + (nat \<times> (string \<rightharpoonup> pyval)) list" where
  "nodes_data m = (case graph m of Val v \<Rightarrow> Inl AttributeError | Graph g \<Rightarrow> Inr (nodes g))"

text \<open>
  The \<^verbatim>\<open>while\<close> loop of \<^verbatim>\<open>run_to_convergence\<close>. The bound is read from the model at
  every test, the key and the threshold were read once before the loop. A stepper may
  move the bound, so the loop need not end: not returning is the value \<open>None\<close>.
\<close>

partial_function (option) converge_loop ::
  "std_test \<Rightarrow> ('f \<Rightarrow> 'f AgentModel \<Rightarrow> (unit, 'f) outcome) \<Rightarrow> pyval \<Rightarrow> pyval \<Rightarrow> int \<Rightarrow> 'f AgentModel \<Rightarrow>
   (int, 'f) outcome option" where
  "converge_loop std_le step data_key std_dev time m =
     (if time < MAX_TIMESTEPS m
      then (case is_converged std_le m data_key std_dev of
              Inl e \<Rightarrow> Some (Inl e, m)
            | Inr converged \<Rightarrow>
                if converged then Some (Inr time, m)
                else (case timestep step m of
                        (Inl e, m') \<Rightarrow> Some (Inl e, m')
                      | (Inr u, m') \<Rightarrow>
                          (case nodes_data m' of
                             Inl e \<Rightarrow> Some (Inl e, m')
                           | Inr snapshot \<Rightarrow> converge_loop std_le step data_key std_dev (time + 1) m')))
      else Some (Inr time, m))"

definition run_to_convergence ::
  "std_test \<Rightarrow> ('f \<Rightarrow> 'f AgentModel \<Rightarrow> (unit, 'f) outcome) \<Rightarrow> 'f AgentModel \<Rightarrow> (int, 'f) outcome option" where
  "run_to_convergence std_le step m =
     (case getitem m ''convergence_data_key'' of
        Inl e \<Rightarrow> Some (Inl e, m)
      | Inr data_key \<Rightarrow>
     (case getitem m ''convergence_std_dev'' of
        Inl e \<Rightarrow> Some (Inl e, m)
      | Inr std_dev \<Rightarrow>
          (if \<not> truthy (Val data_key)
           then Some (Inl (PyException ''No convergence data key specified''), m)
           else (case nodes_data m of
                   Inl e \<Rightarrow> Some (Inl e, m)
                 | Inr snapshot \<Rightarrow> converge_loop std_le step data_key std_dev 0 m))))"

section \<open>Notions the claims are stated with\<close>

text \<open>The four names that \<^verbatim>\<open>delete_parameters\<close> refuses to delete.\<close>

definition protected_keys :: "string set" where
  "protected_keys = {''num_nodes'', ''graph_type'', ''convergence_data_key'', ''convergence_std_dev''}"

text \<open>
  The operations on the parameter store that a caller can issue, and the state each one
  leaves behind, whether it returned or raised (a caller may catch the exception and go on).
\<close>

datatype param_op =
  UpdateParameters "string \<rightharpoonup> pyval"
| DeleteParameters "string list option"
| SetItem string pyval
| GetItem string

fun apply_op :: "param_op \<Rightarrow> 'f AgentModel \<Rightarrow> 'f AgentModel" where
  "apply_op (UpdateParameters patch) m = snd (update_parameters patch m)"
| "apply_op (DeleteParameters keys) m = snd (delete_parameters keys m)"
| "apply_op (SetItem k v) m = setitem k v m"
| "apply_op (GetItem k) m = m"

text \<open>The model after \<open>i\<close> calls of \<^verbatim>\<open>timestep\<close>: the states a convergence run visits.\<close>

fun after_steps :: "('f \<Rightarrow> 'f AgentModel \<Rightarrow> (unit, 'f) outcome) \<Rightarrow> nat \<Rightarrow> 'f AgentModel \<Rightarrow> 'f AgentModel" where
  "after_steps step 0 m = m"
| "after_steps step (Suc i) m = after_steps step i (snd (timestep step m))"

text \<open>
  A stepper that leaves the bound alone: it never calls \<^verbatim>\<open>change_max_timesteps\<close> with
  a different value. The spec's stepper contract has the stepper read and write node
  records only.
\<close>

definition keeps_bound :: "('f \<Rightarrow> 'f AgentModel \<Rightarrow> (unit, 'f) outcome) \<Rightarrow> bool" where
  "keeps_bound step = (\<forall>f m. MAX_TIMESTEPS (snd (step f m)) = MAX_TIMESTEPS m)"

text \<open>
  An initializer that leaves the model alone: it only returns the record for the node.
\<close>

definition reads_only ::
  "('f \<Rightarrow> nat \<Rightarrow> 'f AgentModel \<Rightarrow> (string \<rightharpoonup> pyval, 'f) outcome) \<Rightarrow> bool" where
  "reads_only call = (\<forall>f k m. snd (call f k m) = m)"

section \<open>Example models\<close>

text \<open>
  A store with two custom keys; the spec's end-to-end example (every node gets
  \<open>id = 10\<close>, the stepper leaves the data untouched, the key is \<open>id\<close>, the threshold
  \<open>0\<close>); a model holding a one-node graph and no initializer; an initializer that joins
  two nodes of the graph it is populating, with a model asking for the cycle on four nodes;
  a graph whose \<open>id\<close> values are \<open>1, 100\<close>; and a stepper that sets every \<open>id\<close> to \<open>10\<close>.
\<close>

definition custom_model :: "unit AgentModel" where
  "custom_model = setitem ''y'' (PyStr ''b'') (setitem ''x'' (PyInt 1) init)"

text \<open>
  An answer of the numeric library for the examples: the population standard deviation
  against the threshold in exact integer arithmetic (\<open>\<surd>(D / N\<^sup>2) \<le> s\<close> for
  \<open>D = N \<Sigma>x\<^sup>2 - (\<Sigma>x)\<^sup>2\<close>), false on the empty sample, a type error on anything
  that is not a number. It is an input of the examples, not the library: on the samples
  used below (\<open>1, 100\<close> against \<open>10\<close>, and equal values) every intermediate value of the
  library's computation is exactly representable in floating point and the library
  answers the same; on large values floating point rounds and the library may differ.
\<close>

fun as_number :: "pyval \<Rightarrow> int option" where
  "as_number (PyInt i) = Some i"
| "as_number (PyBool b) = Some (if b then 1 else 0)"
| "as_number PyNone = None"
| "as_number (PyStr s) = None"

definition exact_std_le :: std_test where
  "exact_std_le vals std_dev =
     (case (those (map as_number vals), as_number std_dev) of
        (Some xs, Some s) \<Rightarrow>
          Inr (xs \<noteq> [] \<and> 0 \<le> s \<and>
               int (length xs) * (\<Sum>x\<leftarrow>xs. x * x) - (\<Sum>x\<leftarrow>xs. x) * (\<Sum>x\<leftarrow>xs. x)
                 \<le> s * s * (int (length xs) * int (length xs)))
      | _ \<Rightarrow> Inl TypeError)"

definition idle_step :: "unit \<Rightarrow> unit AgentModel \<Rightarrow> (unit, unit) outcome" where
  "idle_step f m = (Inr (), m)"

definition ten_initializer ::
  "unit \<Rightarrow> nat \<Rightarrow> unit AgentModel \<Rightarrow> (string \<rightharpoonup> pyval, unit) outcome" where
  "ten_initializer f k m = (Inr [''id'' \<mapsto> PyInt 10], m)"

definition rewiring_initializer ::
  "unit \<Rightarrow> nat \<Rightarrow> unit AgentModel \<Rightarrow> (string \<rightharpoonup> pyval, unit) outcome" where
  "rewiring_initializer f k m =
     (Inr [''id'' \<mapsto> PyInt 10],
      (case graph m of Val v \<Rightarrow> m | Graph g \<Rightarrow> m\<lparr>graph := Graph (add_edge (0, 2) g)\<rparr>))"

definition cycle_model :: "unit AgentModel" where
  "cycle_model =
     set_initial_data_function (Some ())
       (setitem ''graph_type'' (PyStr ''cycle'') (setitem ''num_nodes'' (PyInt 4) init))"

definition rewired_graph :: nx_graph where
  "rewired_graph =
     \<lparr> nodes = [(0, [''id'' \<mapsto> PyInt 10]), (1, [''id'' \<mapsto> PyInt 10]),
                (2, [''id'' \<mapsto> PyInt 10]), (3, [''id'' \<mapsto> PyInt 10])],
       edges = [(0, 1), (1, 2), (2, 3), (3, 0), (0, 2)] \<rparr>"

definition lone_node :: nx_graph where
  "lone_node = \<lparr> nodes = [(0, [''id'' \<mapsto> PyInt 7])], edges = [] \<rparr>"

definition lone_node_model :: "unit AgentModel" where
  "lone_node_model = snd (set_graph (Graph lone_node) init)"

definition example_model :: "unit AgentModel" where
  "example_model =
     set_timestep_function (Some ())
       (set_initial_data_function (Some ())
         (setitem ''convergence_std_dev'' (PyInt 0)
           (setitem ''convergence_data_key'' (PyStr ''id'') init)))"

definition tens_graph :: nx_graph where
  "tens_graph =
     \<lparr> nodes = [(0, [''id'' \<mapsto> PyInt 10]), (1, [''id'' \<mapsto> PyInt 10]), (2, [''id'' \<mapsto> PyInt 10])],
       edges = [(0, 1), (0, 2), (1, 2)] \<rparr>"

definition spread_graph :: nx_graph where
  "spread_graph = \<lparr> nodes = [(0, [''id'' \<mapsto> PyInt 1]), (1, [''id'' \<mapsto> PyInt 100])], edges = [(0, 1)] \<rparr>"

definition spread_model :: "unit AgentModel" where
  "spread_model = snd (set_graph (Graph spread_graph) (setitem ''convergence_std_dev'' (PyInt 10) example_model))"

definition level_step :: "unit \<Rightarrow> unit AgentModel \<Rightarrow> (unit, unit) outcome" where
  "level_step f m =
     (case graph m of
        Val v \<Rightarrow> (Inl AttributeError, m)
      | Graph g \<Rightarrow>
          (Inr (), m\<lparr>graph := Graph (g\<lparr>nodes := map (\<lambda>(i, r). (i, r(''id'' \<mapsto> PyInt 10))) (nodes g)\<rparr>)\<rparr>))"

definition leveled_graph :: nx_graph where
  "leveled_graph = \<lparr> nodes = [(0, [''id'' \<mapsto> PyInt 10]), (1, [''id'' \<mapsto> PyInt 10])], edges = [(0, 1)] \<rparr>"

section \<open>The parameter store\<close>

lemma delete_loop_Cons:
  "delete_loop (param # rest) m =
     (if parameters m param = None \<or> param \<in> protected_keys then (Inl KeyError, m)
      else delete_loop rest (m\<lparr>parameters := (parameters m)(param := None)\<rparr>))"
  by (simp add: protected_keys_def)

declare delete_loop.simps(2) [simp del]

lemma delete_loop_success:
  "distinct ks \<Longrightarrow> set ks \<subseteq> dom (parameters m) - protected_keys \<Longrightarrow>
   delete_loop ks m = (Inr True, m\<lparr>parameters := parameters m |` (- set ks)\<rparr>)"
proof (induction ks arbitrary: m)
  case Nil
  then show ?case by simp
next
  case (Cons k ks)
  let ?m1 = "m\<lparr>parameters := (parameters m)(k := None)\<rparr>"
  from Cons.prems have k: "parameters m k \<noteq> None" "k \<notin> protected_keys" "k \<notin> set ks"
    by auto
  from Cons.prems have "set ks \<subseteq> dom (parameters ?m1) - protected_keys"
    by auto
  with Cons.prems have "delete_loop ks ?m1 = (Inr True, ?m1\<lparr>parameters := parameters ?m1 |` (- set ks)\<rparr>)"
    by (intro Cons.IH) auto
  moreover have "parameters ?m1 |` (- set ks) = parameters m |` (- set (k # ks))"
    by (auto simp: restrict_map_def fun_eq_iff)
  ultimately show ?case using k by (simp add: delete_loop_Cons)
qed

lemma delete_loop_append:
  "delete_loop (pre @ rest) m =
     (case fst (delete_loop pre m) of Inl e \<Rightarrow> delete_loop pre m | Inr b \<Rightarrow> delete_loop rest (snd (delete_loop pre m)))"
  by (induction pre arbitrary: m) (auto simp: delete_loop_Cons split: sum.splits)

lemma delete_loop_fails:
  assumes "distinct pre" "set pre \<subseteq> dom (parameters m) - protected_keys"
    and "parameters m k = None \<or> k \<in> protected_keys \<or> k \<in> set pre"
  shows "delete_loop (pre @ k # post) m = (Inl KeyError, m\<lparr>parameters := parameters m |` (- set pre)\<rparr>)"
proof -
  have "(parameters m |` (- set pre)) k = None \<or> k \<in> protected_keys"
    using assms(3) by (auto simp: restrict_map_def)
  then show ?thesis
    using delete_loop_success[OF assms(1,2)]
    by (auto simp: delete_loop_append delete_loop_Cons)
qed

lemma delete_loop_result:
  "fst (delete_loop ks m) = Inr True \<or> fst (delete_loop ks m) = Inl KeyError"
  by (induction ks arbitrary: m) (auto simp: delete_loop_Cons)

lemma delete_loop_True_iff:
  "fst (delete_loop ks m) = Inr True \<longleftrightarrow> distinct ks \<and> set ks \<subseteq> dom (parameters m) - protected_keys"
proof (induction ks arbitrary: m)
  case Nil
  then show ?case by simp
next
  case (Cons k ks)
  show ?case
    by (auto simp: Cons.IH delete_loop_Cons dom_def)
qed

lemma delete_loop_first_failure:
  "fst (delete_loop ks m) = Inl KeyError \<Longrightarrow>
   \<exists>pre k post. ks = pre @ k # post \<and> distinct pre \<and> set pre \<subseteq> dom (parameters m) - protected_keys
      \<and> (parameters m k = None \<or> k \<in> protected_keys \<or> k \<in> set pre)"
proof -
  assume a: "fst (delete_loop ks m) = Inl KeyError"
  define P where "P = (\<lambda>xs. distinct xs \<and> set xs \<subseteq> dom (parameters m) - protected_keys)"
  have notP: "\<not> P ks" using a delete_loop_True_iff[of ks m] by (simp add: P_def)
  have "\<exists>pre k post. ks = pre @ k # post \<and> P pre \<and> \<not> P (pre @ [k])"
    using notP
  proof (induction ks rule: rev_induct)
    case Nil
    then show ?case by (simp add: P_def)
  next
    case (snoc x xs)
    show ?case
    proof (cases "P xs")
      case True
      with snoc.prems show ?thesis by (intro exI[of _ xs] exI[of _ x] exI[of _ "[]"]) simp
    next
      case False
      from snoc.IH[OF this] obtain pre k post where "xs = pre @ k # post" "P pre" "\<not> P (pre @ [k])"
        by blast
      then show ?thesis by (intro exI[of _ pre] exI[of _ k] exI[of _ "post @ [x]"]) simp
    qed
  qed
  then obtain pre k post where *: "ks = pre @ k # post" "P pre" "\<not> P (pre @ [k])" by blast
  from *(2,3) have "parameters m k = None \<or> k \<in> protected_keys \<or> k \<in> set pre"
    by (auto simp: P_def dom_def)
  with * show ?thesis unfolding P_def by blast
qed

lemma protected_init: "protected_keys \<subseteq> dom (parameters init)"
  by (simp add: protected_keys_def init_def)

lemma delete_loop_keeps:
  "k \<in> protected_keys \<Longrightarrow> parameters (snd (delete_loop ks m)) k = parameters m k"
  by (induction ks arbitrary: m) (auto simp: delete_loop_Cons)

lemma delete_parameters_keeps:
  assumes "protected_keys \<subseteq> dom (parameters m)"
  shows "protected_keys \<subseteq> dom (parameters (snd (delete_parameters keys m)))"
proof (cases "keys = None \<or> keys = Some []")
  case True
  then show ?thesis by (auto simp: delete_parameters_def protected_keys_def)
next
  case False
  then obtain ks where "keys = Some ks" "ks \<noteq> []" by (cases keys) auto
  then have "snd (delete_parameters keys m) = snd (delete_loop ks m)"
    by (simp add: delete_parameters_def)
  with assms show ?thesis by (auto simp: delete_loop_keeps dom_def)
qed

lemma apply_op_keeps:
  "protected_keys \<subseteq> dom (parameters m) \<Longrightarrow> protected_keys \<subseteq> dom (parameters (apply_op op m))"
proof (cases op)
  case (DeleteParameters keys)
  assume "protected_keys \<subseteq> dom (parameters m)"
  then show ?thesis using delete_parameters_keeps[of m keys] DeleteParameters by simp
qed (auto simp: update_parameters_def setitem_def)

lemma fold_apply_op_keeps:
  "protected_keys \<subseteq> dom (parameters m) \<Longrightarrow> protected_keys \<subseteq> dom (parameters (fold apply_op ops m))"
  by (induction ops arbitrary: m) (simp_all add: apply_op_keeps)

subsection \<open>Resetting the parameters\<close>

text \<open>
  C4. \<^verbatim>\<open>delete_parameters()\<close> with no argument, or with the empty list, succeeds with
  \<open>True\<close> from every prior state and leaves the parameter store equal to the store of a
  freshly constructed model: exactly the keys \<open>num_nodes\<close>, \<open>graph_type\<close>,
  \<open>convergence_data_key\<close>, \<open>convergence_std_dev\<close>, bound to \<open>3\<close>, \<open>"complete"\<close>,
  \<open>None\<close> and \<open>100\<close>; every custom key is gone and nothing else of the model changes.
\<close>

theorem delete_parameters_reset:
  fixes m :: "'f AgentModel"
  defines "r \<equiv> parameters (init :: 'f AgentModel)"
  shows "delete_parameters None m = (Inr True, m\<lparr>parameters := r\<rparr>)
       \<and> delete_parameters (Some []) m = (Inr True, m\<lparr>parameters := r\<rparr>)
       \<and> dom r = {''num_nodes'', ''graph_type'', ''convergence_data_key'', ''convergence_std_dev''}
       \<and> r ''num_nodes'' = Some (PyInt 3)
       \<and> r ''graph_type'' = Some (PyStr ''complete'')
       \<and> r ''convergence_data_key'' = Some PyNone
       \<and> r ''convergence_std_dev'' = Some (PyInt 100)"
  unfolding r_def by (auto simp: delete_parameters_def init_def)

theorem delete_parameters_reset_witness:
  "delete_parameters None custom_model = (Inr True, custom_model\<lparr>parameters := parameters init\<rparr>)
   \<and> parameters custom_model ''x'' = Some (PyInt 1)
   \<and> parameters (snd (delete_parameters None custom_model)) ''x'' = None
   \<and> parameters (snd (delete_parameters None custom_model)) ''num_nodes'' = Some (PyInt 3)"
  using delete_parameters_reset[of custom_model]
  by (simp add: custom_model_def setitem_def init_def)

subsection \<open>The first failing key\<close>

text \<open>
  C5 (as amended). \<^verbatim>\<open>delete_parameters(keys)\<close> takes the keys in the given order and
  raises \<open>KeyError\<close> at the first key \<open>k\<close> that is absent when its turn comes (absent
  before the call, or removed earlier in the same call) or is one of the four protected
  keys. The store is then the store before the call without the keys \<open>pre\<close> that precede
  \<open>k\<close>: those have been removed, and every other key, the failing one and the later ones
  included unless they also occur among \<open>pre\<close>, is bound as before. The call returns
  \<open>True\<close> exactly when every key is present, unprotected and listed once, and a call
  that does not return \<open>True\<close> raises \<open>KeyError\<close> at such a first failing key.
\<close>

theorem delete_parameters_in_order:
  "(distinct pre \<and> set pre \<subseteq> dom (parameters m) - protected_keys \<and>
      (parameters m k = None \<or> k \<in> protected_keys \<or> k \<in> set pre)
     \<longrightarrow> delete_parameters (Some (pre @ k # post)) m =
          (Inl KeyError, m\<lparr>parameters := parameters m |` (- set pre)\<rparr>))
   \<and> (ks \<noteq> [] \<and> distinct ks \<and> set ks \<subseteq> dom (parameters m) - protected_keys
     \<longrightarrow> delete_parameters (Some ks) m = (Inr True, m\<lparr>parameters := parameters m |` (- set ks)\<rparr>))
   \<and> (fst (delete_parameters (Some ks) m) = Inr True
        \<longleftrightarrow> distinct ks \<and> set ks \<subseteq> dom (parameters m) - protected_keys)
   \<and> (fst (delete_parameters (Some ks) m) \<noteq> Inr True
     \<longrightarrow> fst (delete_parameters (Some ks) m) = Inl KeyError \<and>
         (\<exists>pre k post. ks = pre @ k # post \<and> distinct pre \<and>
            set pre \<subseteq> dom (parameters m) - protected_keys \<and>
            (parameters m k = None \<or> k \<in> protected_keys \<or> k \<in> set pre)))"
proof (intro conjI impI)
  assume "distinct pre \<and> set pre \<subseteq> dom (parameters m) - protected_keys \<and>
      (parameters m k = None \<or> k \<in> protected_keys \<or> k \<in> set pre)"
  then show "delete_parameters (Some (pre @ k # post)) m =
          (Inl KeyError, m\<lparr>parameters := parameters m |` (- set pre)\<rparr>)"
    using delete_loop_fails[of pre m k post] by (simp add: delete_parameters_def)
next
  assume "ks \<noteq> [] \<and> distinct ks \<and> set ks \<subseteq> dom (parameters m) - protected_keys"
  then show "delete_parameters (Some ks) m = (Inr True, m\<lparr>parameters := parameters m |` (- set ks)\<rparr>)"
    using delete_loop_success[of ks m] by (simp add: delete_parameters_def)
next
  show iff: "fst (delete_parameters (Some ks) m) = Inr True
        \<longleftrightarrow> distinct ks \<and> set ks \<subseteq> dom (parameters m) - protected_keys"
    using delete_loop_True_iff[of ks m] by (cases "ks = []") (simp_all add: delete_parameters_def)
next
  assume ne: "fst (delete_parameters (Some ks) m) \<noteq> Inr True"
  then have ks: "ks \<noteq> []" by (auto simp: delete_parameters_def)
  then have eq: "delete_parameters (Some ks) m = delete_loop ks m"
    by (simp add: delete_parameters_def)
  with ne delete_loop_result[of ks m]
  show "fst (delete_parameters (Some ks) m) = Inl KeyError" by simp
  then show "\<exists>pre k post. ks = pre @ k # post \<and> distinct pre \<and>
            set pre \<subseteq> dom (parameters m) - protected_keys \<and>
            (parameters m k = None \<or> k \<in> protected_keys \<or> k \<in> set pre)"
    using delete_loop_first_failure[of ks m] eq by simp
qed

theorem delete_parameters_in_order_witness:
  "delete_parameters (Some ([''x''] @ ''num_nodes'' # [''y''])) custom_model =
     (Inl KeyError, custom_model\<lparr>parameters := parameters custom_model |` (- set [''x''])\<rparr>)
   \<and> parameters custom_model ''x'' = Some (PyInt 1)
   \<and> (parameters custom_model |` (- set [''x''])) ''x'' = None
   \<and> (parameters custom_model |` (- set [''x''])) ''num_nodes'' = Some (PyInt 3)
   \<and> (parameters custom_model |` (- set [''x''])) ''y'' = Some (PyStr ''b'')
   \<and> fst (delete_parameters (Some [''x'', ''y'']) custom_model) = Inr True"
  using delete_parameters_in_order[of "[''x'']" custom_model "''num_nodes''" "[''y'']" "[''x'', ''y'']"]
  by (simp add: custom_model_def setitem_def init_def protected_keys_def)

text \<open>
  The claim as first stated lets every key after the failing one keep its binding. A key
  listed both before and after the failing key does not: in
  \<^verbatim>\<open>delete_parameters(["x", "num_nodes", "x"])\<close> the call fails at \<open>num_nodes\<close>, and the
  later key \<open>x\<close>, bound before the call, is gone.
\<close>

theorem delete_parameters_repeated_key_counterexample:
  "fst (delete_parameters (Some [''x'', ''num_nodes'', ''x'']) custom_model) = Inl KeyError
   \<and> parameters custom_model ''x'' = Some (PyInt 1)
   \<and> parameters (snd (delete_parameters (Some [''x'', ''num_nodes'', ''x'']) custom_model)) ''x'' = None"
  by (simp add: delete_parameters_def delete_loop_Cons protected_keys_def custom_model_def setitem_def init_def)

subsection \<open>The required keys stay\<close>

text \<open>
  C9. The four required keys \<open>num_nodes\<close>, \<open>graph_type\<close>, \<open>convergence_data_key\<close>
  and \<open>convergence_std_dev\<close> are in the parameter store of a freshly constructed model and
  in the store reached from it by every sequence of \<^verbatim>\<open>update_parameters\<close>,
  \<^verbatim>\<open>delete_parameters\<close> (with or without keys, returning or raising), indexed writes
  and indexed reads. They can be overwritten: after a write or an update of a key, required
  or not, the key holds the written value.
\<close>

theorem required_keys_always_present:
  "protected_keys \<subseteq> dom (parameters (init :: 'f AgentModel))
   \<and> protected_keys \<subseteq> dom (parameters (fold apply_op ops (init :: 'f AgentModel)))
   \<and> parameters (apply_op (SetItem k v) (fold apply_op ops (init :: 'f AgentModel))) k = Some v
   \<and> parameters (apply_op (UpdateParameters [k \<mapsto> v]) (fold apply_op ops (init :: 'f AgentModel))) k = Some v"
  using fold_apply_op_keeps[OF protected_init, of ops]
  by (simp add: protected_init setitem_def update_parameters_def)

theorem required_keys_always_present_witness:
  "parameters (fold apply_op
      [SetItem ''x'' (PyInt 1), DeleteParameters (Some [''x'', ''num_nodes'']),
       SetItem ''num_nodes'' (PyInt 7), DeleteParameters (Some [''graph_type'']),
       UpdateParameters [''graph_type'' \<mapsto> PyStr ''cycle''], GetItem ''missing'']
      (init :: unit AgentModel)) ''num_nodes'' = Some (PyInt 7)
   \<and> protected_keys \<subseteq> dom (parameters (fold apply_op
      [SetItem ''x'' (PyInt 1), DeleteParameters (Some [''x'', ''num_nodes'']),
       SetItem ''num_nodes'' (PyInt 7), DeleteParameters (Some [''graph_type'']),
       UpdateParameters [''graph_type'' \<mapsto> PyStr ''cycle''], GetItem ''missing'']
      (init :: unit AgentModel)))"
  using required_keys_always_present[of
      "[SetItem ''x'' (PyInt 1), DeleteParameters (Some [''x'', ''num_nodes'']),
       SetItem ''num_nodes'' (PyInt 7), DeleteParameters (Some [''graph_type'']),
       UpdateParameters [''graph_type'' \<mapsto> PyStr ''cycle''], GetItem ''missing'']"]
  by (simp add: init_def setitem_def update_parameters_def delete_parameters_def delete_loop_Cons protected_keys_def)

section \<open>Setting the graph\<close>

text \<open>
  What \<^verbatim>\<open>set_graph\<close> does on every argument: the test is on truthiness, so the
  falsy values \<^verbatim>\<open>False\<close>, \<open>0\<close> and the empty string pass it together with \<^verbatim>\<open>None\<close>.
\<close>

lemma set_graph_cases:
  "set_graph g m =
     (if g \<in> {Val PyNone, Val (PyBool False), Val (PyInt 0), Val (PyStr [])} \<or> isinstance_Graph g
      then (Inr (), m\<lparr>graph := g\<rparr>)
      else (Inl (PyException ''The passed parameter is not a graph object.''), m))"
proof (cases g)
  case (Val v)
  then show ?thesis by (cases v) (auto simp: set_graph_def)
next
  case (Graph x)
  then show ?thesis by (simp add: set_graph_def)
qed

text \<open>
  C8. The claim is that \<^verbatim>\<open>set_graph(g)\<close> raises exactly when \<open>g\<close> is neither
  \<^verbatim>\<open>None\<close> nor a graph, which is also what the docstring of \<^verbatim>\<open>set_graph\<close> says. The
  code at the arguments \<open>0\<close> and \<open>""\<close>, neither of them \<^verbatim>\<open>None\<close> or a graph: the call
  returns and the value is stored in the graph slot. At the truthy non-graph \<open>5\<close> the call
  raises and the model is as before.
\<close>

theorem set_graph_accepts_falsy_non_graph:
  "set_graph (Val (PyInt 0)) (init :: unit AgentModel) = (Inr (), init\<lparr>graph := Val (PyInt 0)\<rparr>)
   \<and> set_graph (Val (PyStr [])) (init :: unit AgentModel) = (Inr (), init\<lparr>graph := Val (PyStr [])\<rparr>)
   \<and> set_graph (Val (PyInt 5)) (init :: unit AgentModel) =
        (Inl (PyException ''The passed parameter is not a graph object.''), init)"
  by (simp add: set_graph_def)

section \<open>The generated graphs\<close>

lemma nodes_add_edge [simp]: "nodes (add_edge e g) = nodes g"
  by (simp add: add_edge_def)

lemma nodes_add_edges_from [simp]: "nodes (add_edges_from es g) = nodes g"
  unfolding add_edges_from_def by (induction es arbitrary: g) simp_all

lemma nodes_empty_graph [simp]: "nodes (empty_graph n) = map (\<lambda>i. (i, Map.empty)) [0..<n]"
  by (simp add: empty_graph_def)

lemma nodes_complete_graph [simp]: "nodes (complete_graph n) = map (\<lambda>i. (i, Map.empty)) [0..<n]"
  by (simp add: complete_graph_def)

lemma nodes_cycle_graph [simp]: "nodes (cycle_graph n) = map (\<lambda>i. (i, Map.empty)) [0..<n]"
  by (simp add: cycle_graph_def)

lemma nodes_wheel_graph [simp]: "nodes (wheel_graph n) = map (\<lambda>i. (i, Map.empty)) [0..<n]"
  by (simp add: wheel_graph_def Let_def)

lemma edges_add_edge:
  "edges (add_edge e g) = (if has_edge g (fst e) (snd e) then edges g else edges g @ [e])"
  by (simp add: add_edge_def)

lemma has_edge_add_edge:
  "has_edge (add_edge e g) u v \<longleftrightarrow> has_edge g u v \<or> e = (u, v) \<or> e = (v, u)"
  by (cases e) (auto simp: add_edge_def has_edge_def)

lemma has_edge_add_edges_from:
  "has_edge (add_edges_from es g) u v \<longleftrightarrow> has_edge g u v \<or> (u, v) \<in> set es \<or> (v, u) \<in> set es"
  unfolding add_edges_from_def
  by (induction es arbitrary: g) (auto simp: has_edge_add_edge)

lemma edges_add_edges_from:
  assumes "distinct es"
    and "\<And>u v. (u, v) \<in> set es \<Longrightarrow> (v, u) \<in> set es \<Longrightarrow> u = v"
    and "\<And>u v. (u, v) \<in> set es \<Longrightarrow> \<not> has_edge g u v"
  shows "edges (add_edges_from es g) = edges g @ es"
  using assms unfolding add_edges_from_def
proof (induction es arbitrary: g)
  case Nil
  then show ?case by simp
next
  case (Cons e es)
  obtain a b where e: "e = (a, b)" by (cases e)
  have fresh: "\<not> has_edge g a b" using Cons.prems(3)[of a b] e by simp
  have "edges (fold add_edge es (add_edge e g)) = edges (add_edge e g) @ es"
  proof (rule Cons.IH)
    show "distinct es" using Cons.prems(1) by simp
  next
    fix u v assume "(u, v) \<in> set es" "(v, u) \<in> set es"
    then show "u = v" using Cons.prems(2)[of u v] by simp
  next
    fix u v assume uv: "(u, v) \<in> set es"
    have "\<not> has_edge g u v" using Cons.prems(3)[of u v] uv by simp
    moreover have "e \<noteq> (u, v)" using Cons.prems(1) uv by auto
    moreover have "e \<noteq> (v, u)"
    proof
      assume "e = (v, u)"
      then have "(v, u) \<in> set (e # es)" "(u, v) \<in> set (e # es)" using uv by simp_all
      then have "u = v" using Cons.prems(2)[of u v] by blast
      with \<open>e = (v, u)\<close> uv Cons.prems(1) show False by auto
    qed
    ultimately show "\<not> has_edge (add_edge e g) u v" by (simp add: has_edge_add_edge)
  qed
  then show ?case using fresh e by (simp add: edges_add_edge)
qed

lemma has_edge_empty_graph [simp]: "\<not> has_edge (empty_graph n) u v"
  by (simp add: has_edge_def empty_graph_def)

lemma edges_empty_graph [simp]: "edges (empty_graph n) = []"
  by (simp add: empty_graph_def)

lemma length_combinations2: "length (combinations2 xs) = length xs * (length xs - 1) div 2"
proof (induction xs)
  case Nil
  then show ?case by simp
next
  case (Cons x xs)
  have "length xs + length xs * (length xs - 1) div 2 = (length xs + 1) * length xs div 2"
  proof (cases "length xs")
    case 0
    then show ?thesis by simp
  next
    case (Suc k)
    have "Suc k + Suc k * k div 2 = (2 * Suc k + Suc k * k) div 2" by simp
    also have "2 * Suc k + Suc k * k = (Suc k + 1) * Suc k" by (simp add: algebra_simps)
    finally show ?thesis using Suc by simp
  qed
  with Cons show ?case by simp
qed

lemma set_combinations2:
  "sorted_wrt (<) xs \<Longrightarrow> (a, b) \<in> set (combinations2 xs) \<longleftrightarrow> a \<in> set xs \<and> b \<in> set xs \<and> a < b"
  by (induction xs) auto

lemma distinct_combinations2:
  "sorted_wrt (<) xs \<Longrightarrow> distinct (combinations2 xs)"
proof (induction xs)
  case Nil
  then show ?case by simp
next
  case (Cons x xs)
  then have s: "sorted_wrt (<) xs" and x: "\<forall>y\<in>set xs. x < y" by simp_all
  have "distinct xs" using s by (simp add: strict_sorted_iff)
  then have "distinct (map (Pair x) xs)" by (simp add: distinct_map inj_on_def)
  moreover have "set (map (Pair x) xs) \<inter> set (combinations2 xs) = {}"
    using x set_combinations2[OF s] by auto
  ultimately show ?case using Cons.IH[OF s] by simp
qed

lemma edges_complete_graph: "edges (complete_graph n) = combinations2 [0..<n]"
proof (cases "1 < n")
  case True
  have "edges (add_edges_from (combinations2 [0..<n]) (empty_graph n)) = edges (empty_graph n) @ combinations2 [0..<n]"
    by (rule edges_add_edges_from) (auto simp: distinct_combinations2 set_combinations2)
  with True show ?thesis by (simp add: complete_graph_def)
next
  case False
  then have "n = 0 \<or> n = 1" by auto
  then show ?thesis by (auto simp: complete_graph_def)
qed

lemma number_of_edges_complete_graph: "number_of_edges (complete_graph n) = n * (n - 1) div 2"
  by (simp add: number_of_edges_def edges_complete_graph length_combinations2)

lemma has_edge_complete_graph:
  "has_edge (complete_graph n) u v \<longleftrightarrow> u < n \<and> v < n \<and> u \<noteq> v"
  by (auto simp: has_edge_def edges_complete_graph set_combinations2)

lemma pairwise_cyclic_upt:
  "pairwise_cyclic [0..<n] = map (\<lambda>i. (i, Suc i mod n)) [0..<n]"
proof (cases n)
  case 0
  then show ?thesis by (simp add: pairwise_cyclic_def)
next
  case (Suc k)
  have upt: "[0..<n] = 0 # [1..<n]" using Suc by (simp add: upt_conv_Cons)
  have "pairwise_cyclic (0 # [1..<n]) = zip (0 # [1..<n]) ([1..<n] @ [0])"
    by (simp add: pairwise_cyclic_def)
  then have pc: "pairwise_cyclic [0..<n] = zip [0..<n] ([1..<n] @ [0])"
    by (simp only: upt[symmetric])
  have len: "length (pairwise_cyclic [0..<n]) = n" unfolding pc by simp
  show ?thesis
  proof (rule nth_equalityI)
    show "length (pairwise_cyclic [0..<n]) = length (map (\<lambda>i. (i, Suc i mod n)) [0..<n])"
      by (simp add: len)
  next
    fix i assume "i < length (pairwise_cyclic [0..<n])"
    then have i: "i < n" by (simp add: len)
    have "([1..<n] @ [0]) ! i = Suc i mod n"
    proof (cases "Suc i < n")
      case True
      then have "i < n - Suc 0" by simp
      with True show ?thesis by (simp add: nth_append)
    next
      case False
      with i have "Suc i = n" by simp
      then show ?thesis by (auto simp: nth_append)
    qed
    then show "pairwise_cyclic [0..<n] ! i = map (\<lambda>i. (i, Suc i mod n)) [0..<n] ! i"
      unfolding pc using i by simp
  qed
qed

lemma edges_cycle_graph:
  assumes "3 \<le> n"
  shows "edges (cycle_graph n) = map (\<lambda>i. (i, Suc i mod n)) [0..<n]"
proof -
  let ?es = "map (\<lambda>i. (i, Suc i mod n)) [0..<n]"
  have "edges (add_edges_from ?es (empty_graph n)) = edges (empty_graph n) @ ?es"
  proof (rule edges_add_edges_from)
    show "distinct ?es" by (simp add: distinct_map inj_on_def)
  next
    fix u v assume "(u, v) \<in> set ?es" "(v, u) \<in> set ?es"
    then have u: "u < n" and v: "v = Suc u mod n" and vu: "u = Suc v mod n" by auto
    have "u = Suc (Suc u mod n) mod n" by (subst v[symmetric]) (rule vu)
    then have "Suc (Suc u) mod n = u" by (simp add: mod_Suc_eq)
    then have False
      using assms u by (auto simp: mod_Suc split: if_splits)
    then show "u = v" ..
  next
    fix u v show "\<not> has_edge (empty_graph n) u v" by simp
  qed
  then show ?thesis by (simp add: cycle_graph_def pairwise_cyclic_upt)
qed

lemma number_of_edges_cycle_graph: "3 \<le> n \<Longrightarrow> number_of_edges (cycle_graph n) = n"
  by (simp add: number_of_edges_def edges_cycle_graph)

lemma pairwise_cyclic_from:
  assumes "k < n"
  shows "pairwise_cyclic [k..<n] = map (\<lambda>i. (i, if Suc i < n then Suc i else k)) [k..<n]"
proof -
  have upt: "[k..<n] = k # [Suc k..<n]" using assms by (simp add: upt_conv_Cons)
  have "pairwise_cyclic (k # [Suc k..<n]) = zip (k # [Suc k..<n]) ([Suc k..<n] @ [k])"
    by (simp add: pairwise_cyclic_def)
  then have pc: "pairwise_cyclic [k..<n] = zip [k..<n] ([Suc k..<n] @ [k])"
    by (simp only: upt[symmetric])
  have len: "length (pairwise_cyclic [k..<n]) = n - k" unfolding pc using assms by simp
  show ?thesis
  proof (rule nth_equalityI)
    show "length (pairwise_cyclic [k..<n]) =
          length (map (\<lambda>i. (i, if Suc i < n then Suc i else k)) [k..<n])"
      by (simp add: len)
  next
    fix i assume "i < length (pairwise_cyclic [k..<n])"
    then have i: "i < n - k" by (simp add: len)
    have "([Suc k..<n] @ [k]) ! i = (if Suc (k + i) < n then Suc (k + i) else k)"
    proof (cases "Suc (k + i) < n")
      case True
      then have "i < n - Suc k" by simp
      with True show ?thesis by (simp add: nth_append)
    next
      case False
      with i have "i = n - Suc k" by simp
      with False show ?thesis by (simp add: nth_append)
    qed
    then show "pairwise_cyclic [k..<n] ! i =
               map (\<lambda>i. (i, if Suc i < n then Suc i else k)) [k..<n] ! i"
      unfolding pc using i by simp
  qed
qed

lemma has_edge_wheel_graph:
  "has_edge (wheel_graph n) u v \<longleftrightarrow>
     (u = 0 \<and> 0 < v \<and> v < n) \<or> (v = 0 \<and> 0 < u \<and> u < n) \<or>
     (2 < n \<and> 0 < u \<and> u < n \<and> v = (if Suc u < n then Suc u else 1)) \<or>
     (2 < n \<and> 0 < v \<and> v < n \<and> u = (if Suc v < n then Suc v else 1))"
proof (cases "2 < n")
  case True
  then have "1 < n" "1 < n - 1" "Suc 0 < n" by simp_all
  then show ?thesis
    using True pairwise_cyclic_from[of 1 n]
    by (auto simp: wheel_graph_def Let_def has_edge_add_edges_from)
next
  case False
  then show ?thesis
    by (auto simp: wheel_graph_def Let_def has_edge_add_edges_from)
qed

lemma complete_graph_3:
  "complete_graph 3 = \<lparr> nodes = [(0, Map.empty), (1, Map.empty), (2, Map.empty)],
                        edges = [(0, 1), (0, 2), (1, 2)] \<rparr>"
  by (simp add: complete_graph_def empty_graph_def add_edges_from_def add_edge_def has_edge_def
      upt_rec numeral_3_eq_3)

section \<open>Initialising the graph\<close>

lemma update_node_topology [simp]:
  "edges (update_node node d g) = edges g"
  "map fst (nodes (update_node node d g)) = map fst (nodes g)"
  by (auto simp: update_node_def split: prod.splits)

lemma populate_topology:
  "reads_only call \<Longrightarrow> populate call ns k m = (Inr (), m') \<Longrightarrow> graph m = Graph g \<Longrightarrow>
   \<exists>g'. graph m' = Graph g' \<and> edges g' = edges g \<and> map fst (nodes g') = map fst (nodes g)"
proof (induction ns arbitrary: k m g)
  case Nil
  then show ?case by simp
next
  case (Cons n ns)
  from Cons.prems(2) obtain f where f: "initial_data_function m = Some f"
    by (cases "initial_data_function m") auto
  obtain r m1 where c: "call f k m = (r, m1)" by (cases "call f k m")
  with Cons.prems(1) have m1: "m1 = m"
    using reads_only_def[of call] by (metis snd_conv)
  from Cons.prems(2) f c obtain d where d: "r = Inr d"
    by (cases r) auto
  let ?m = "m\<lparr>graph := Graph (update_node n d g)\<rparr>"
  from Cons.prems(2,3) f c d m1 have "populate call ns (Suc k) ?m = (Inr (), m')"
    by (simp split: if_splits)
  from Cons.IH[OF Cons.prems(1) this, of "update_node n d g"] show ?case by simp
qed

lemma populate_succeeds:
  "reads_only call \<Longrightarrow> (\<And>k s. \<exists>d. fst (call f k s) = Inr d) \<Longrightarrow>
   initial_data_function m = Some f \<Longrightarrow> graph m = Graph g \<Longrightarrow> set ns \<subseteq> set (map fst (nodes g)) \<Longrightarrow>
   \<exists>m'. populate call ns k m = (Inr (), m')"
proof (induction ns arbitrary: k m g)
  case Nil
  then show ?case by simp
next
  case (Cons n ns)
  from Cons.prems(2)[of k m] obtain d where d: "fst (call f k m) = Inr d" by blast
  have m1: "snd (call f k m) = m" using Cons.prems(1) by (simp add: reads_only_def)
  from d m1 have c: "call f k m = (Inr d, m)" by (cases "call f k m") simp
  let ?m = "m\<lparr>graph := Graph (update_node n d g)\<rparr>"
  have "\<exists>m'. populate call ns (Suc k) ?m = (Inr (), m')"
  proof (rule Cons.IH[OF Cons.prems(1,2)])
    show "initial_data_function ?m = Some f" using Cons.prems(3) by simp
    show "graph ?m = Graph (update_node n d g)" by simp
    show "set ns \<subseteq> set (map fst (nodes (update_node n d g)))" using Cons.prems(5) by simp
  qed
  then show ?case using c Cons.prems(3,4,5) by simp
qed

lemma initialize_graph_built:
  assumes "reads_only call"
    and "parameters m ''num_nodes'' = Some (PyInt (int N))"
    and "parameters m ''graph_type'' = Some graph_type"
    and "initialize_graph call m = (Inr (), m')"
  shows "\<exists>g. graph m' = Graph g \<and> map fst (nodes g) = [0..<N] \<and>
           edges g = edges (if graph_type = PyStr ''complete'' then complete_graph N
                            else if graph_type = PyStr ''cycle'' then cycle_graph N
                            else wheel_graph N)"
proof -
  let ?g = "if graph_type = PyStr ''complete'' then complete_graph N
            else if graph_type = PyStr ''cycle'' then cycle_graph N else wheel_graph N"
  have b: "(if graph_type = PyStr ''complete'' then nx_complete_graph (PyInt (int N))
             else if graph_type = PyStr ''cycle'' then nx_cycle_graph (PyInt (int N))
             else nx_wheel_graph (PyInt (int N))) = Inr ?g"
    by (simp add: nx_complete_graph_def nx_cycle_graph_def nx_wheel_graph_def)
  have ids: "map fst (nodes ?g) = [0..<N]"
    by (simp add: comp_def)
  from assms(4) obtain f where f: "initial_data_function m = Some f"
    by (cases "initial_data_function m") (auto simp: initialize_graph_def getitem_def assms(2,3) b Let_def)
  with assms have "populate call (map fst (nodes ?g)) 0 (m\<lparr>graph := Graph ?g\<rparr>) = (Inr (), m')"
    by (simp add: initialize_graph_def getitem_def b Let_def)
  from populate_topology[OF assms(1) this, of ?g] ids show ?thesis by auto
qed

text \<open>
  C7 (as amended). Let \<open>num_nodes\<close> be \<open>N\<close>, let the initializer leave the model alone
  and let \<^verbatim>\<open>initialize_graph()\<close> return. The model then holds a graph with exactly the
  \<open>N\<close> nodes \<open>0, \<dots>, N - 1\<close>. With \<open>graph_type\<close> equal to \<open>"complete"\<close> its edges are
  those of the complete graph: \<open>N (N - 1) / 2\<close> of them, one between every two distinct
  nodes. With \<open>"cycle"\<close> they are those of the cycle graph: for \<open>N \<ge> 3\<close>, the \<open>N\<close> edges
  from each node \<open>i\<close> to \<open>i + 1\<close> modulo \<open>N\<close>. With every other value of \<open>graph_type\<close>
  they are those of the wheel graph: the hub \<open>0\<close> is joined to every other node, and for
  \<open>N > 2\<close> each rim node is joined to the next, the last to node \<open>1\<close>.
\<close>

theorem initialize_graph_topology:
  assumes "reads_only call"
    and "parameters m ''num_nodes'' = Some (PyInt (int N))"
    and "parameters m ''graph_type'' = Some graph_type"
    and "initialize_graph call m = (Inr (), m')"
  shows "\<exists>g. graph m' = Graph g \<and> number_of_nodes g = N \<and> map fst (nodes g) = [0..<N]
     \<and> (graph_type = PyStr ''complete'' \<longrightarrow>
          edges g = edges (complete_graph N) \<and> number_of_edges g = N * (N - 1) div 2 \<and>
          (\<forall>u v. has_edge g u v \<longleftrightarrow> u < N \<and> v < N \<and> u \<noteq> v))
     \<and> (graph_type = PyStr ''cycle'' \<longrightarrow>
          edges g = edges (cycle_graph N) \<and>
          (3 \<le> N \<longrightarrow> number_of_edges g = N \<and> edges g = map (\<lambda>i. (i, Suc i mod N)) [0..<N]))
     \<and> (graph_type \<noteq> PyStr ''complete'' \<and> graph_type \<noteq> PyStr ''cycle'' \<longrightarrow>
          edges g = edges (wheel_graph N) \<and>
          (\<forall>u v. has_edge g u v \<longleftrightarrow>
             (u = 0 \<and> 0 < v \<and> v < N) \<or> (v = 0 \<and> 0 < u \<and> u < N) \<or>
             (2 < N \<and> 0 < u \<and> u < N \<and> v = (if Suc u < N then Suc u else 1)) \<or>
             (2 < N \<and> 0 < v \<and> v < N \<and> u = (if Suc v < N then Suc v else 1))))"
proof -
  from initialize_graph_built[OF assms] obtain g where g:
    "graph m' = Graph g" "map fst (nodes g) = [0..<N]"
    "edges g = edges (if graph_type = PyStr ''complete'' then complete_graph N
                      else if graph_type = PyStr ''cycle'' then cycle_graph N
                      else wheel_graph N)"
    by blast
  have n: "number_of_nodes g = N"
    using arg_cong[OF g(2), of length] by (simp add: number_of_nodes_def)
  have he: "has_edge g u v = has_edge h u v" if "edges g = edges h" for h u v
    using that by (simp add: has_edge_def)
  have c: "graph_type = PyStr ''complete'' \<longrightarrow>
          edges g = edges (complete_graph N) \<and> number_of_edges g = N * (N - 1) div 2 \<and>
          (\<forall>u v. has_edge g u v \<longleftrightarrow> u < N \<and> v < N \<and> u \<noteq> v)"
  proof
    assume "graph_type = PyStr ''complete''"
    with g(3) have e: "edges g = edges (complete_graph N)" by simp
    moreover have "number_of_edges g = N * (N - 1) div 2"
      using e number_of_edges_complete_graph[of N] by (simp add: number_of_edges_def)
    moreover have "\<forall>u v. has_edge g u v \<longleftrightarrow> u < N \<and> v < N \<and> u \<noteq> v"
      unfolding he[OF e] by (intro allI) (rule has_edge_complete_graph)
    ultimately show "edges g = edges (complete_graph N) \<and> number_of_edges g = N * (N - 1) div 2 \<and>
          (\<forall>u v. has_edge g u v \<longleftrightarrow> u < N \<and> v < N \<and> u \<noteq> v)"
      by blast
  qed
  have y: "graph_type = PyStr ''cycle'' \<longrightarrow>
          edges g = edges (cycle_graph N) \<and>
          (3 \<le> N \<longrightarrow> number_of_edges g = N \<and> edges g = map (\<lambda>i. (i, Suc i mod N)) [0..<N])"
    using g(3) by (auto simp: number_of_edges_def edges_cycle_graph)
  have w: "graph_type \<noteq> PyStr ''complete'' \<and> graph_type \<noteq> PyStr ''cycle'' \<longrightarrow>
          edges g = edges (wheel_graph N) \<and>
          (\<forall>u v. has_edge g u v \<longleftrightarrow>
             (u = 0 \<and> 0 < v \<and> v < N) \<or> (v = 0 \<and> 0 < u \<and> u < N) \<or>
             (2 < N \<and> 0 < u \<and> u < N \<and> v = (if Suc u < N then Suc u else 1)) \<or>
             (2 < N \<and> 0 < v \<and> v < N \<and> u = (if Suc v < N then Suc v else 1)))"
  proof
    assume "graph_type \<noteq> PyStr ''complete'' \<and> graph_type \<noteq> PyStr ''cycle''"
    with g(3) have e: "edges g = edges (wheel_graph N)" by simp
    have "\<forall>u v. has_edge g u v \<longleftrightarrow>
             (u = 0 \<and> 0 < v \<and> v < N) \<or> (v = 0 \<and> 0 < u \<and> u < N) \<or>
             (2 < N \<and> 0 < u \<and> u < N \<and> v = (if Suc u < N then Suc u else 1)) \<or>
             (2 < N \<and> 0 < v \<and> v < N \<and> u = (if Suc v < N then Suc v else 1))"
      unfolding he[OF e] by (intro allI) (rule has_edge_wheel_graph)
    with e show "edges g = edges (wheel_graph N) \<and>
          (\<forall>u v. has_edge g u v \<longleftrightarrow>
             (u = 0 \<and> 0 < v \<and> v < N) \<or> (v = 0 \<and> 0 < u \<and> u < N) \<or>
             (2 < N \<and> 0 < u \<and> u < N \<and> v = (if Suc u < N then Suc u else 1)) \<or>
             (2 < N \<and> 0 < v \<and> v < N \<and> u = (if Suc v < N then Suc v else 1)))"
      by (rule conjI)
  qed
  from g(1,2) n c y w show ?thesis by (intro exI[of _ g] conjI)
qed

lemma initialize_graph_succeeds:
  assumes "reads_only call"
    and "parameters m ''num_nodes'' = Some (PyInt (int N))"
    and "parameters m ''graph_type'' = Some graph_type"
    and "initial_data_function m = Some f"
    and "\<And>k s. \<exists>d. fst (call f k s) = Inr d"
  shows "\<exists>m'. initialize_graph call m = (Inr (), m')"
proof -
  have p: "\<exists>m'. populate call (map fst (nodes g)) 0 (m\<lparr>graph := Graph g\<rparr>) = (Inr (), m')" for g
  proof (rule populate_succeeds[OF assms(1)])
    fix k s show "\<exists>d. fst (call f k s) = Inr d" by (rule assms(5))
  next
    show "initial_data_function (m\<lparr>graph := Graph g\<rparr>) = Some f" using assms(4) by simp
    show "graph (m\<lparr>graph := Graph g\<rparr>) = Graph g" by simp
    show "set (map fst (nodes g)) \<subseteq> set (map fst (nodes g))" by simp
  qed
  have "\<exists>m'. initialize_graph call m = (Inr (), m')" if "graph_type = PyStr ''complete''"
    using assms(2-4) that p[of "complete_graph N"]
    by (simp add: initialize_graph_def getitem_def Let_def nx_complete_graph_def)
  moreover have "\<exists>m'. initialize_graph call m = (Inr (), m')"
    if "graph_type \<noteq> PyStr ''complete''" "graph_type = PyStr ''cycle''"
    using assms(2-4) that p[of "cycle_graph N"]
    by (simp add: initialize_graph_def getitem_def Let_def nx_cycle_graph_def)
  moreover have "\<exists>m'. initialize_graph call m = (Inr (), m')"
    if "graph_type \<noteq> PyStr ''complete''" "graph_type \<noteq> PyStr ''cycle''"
    using assms(2-4) that p[of "wheel_graph N"]
    by (simp add: initialize_graph_def getitem_def Let_def nx_wheel_graph_def)
  ultimately show ?thesis by blast
qed

lemma reads_only_ten: "reads_only ten_initializer"
  by (simp add: reads_only_def ten_initializer_def)

lemma initialize_example:
  "initialize_graph ten_initializer example_model = (Inr (), example_model\<lparr>graph := Graph tens_graph\<rparr>)"
  by (simp add: initialize_graph_def getitem_def nx_complete_graph_def nx_cycle_graph_def nx_wheel_graph_def Let_def complete_graph_3
      example_model_def set_timestep_function_def set_initial_data_function_def setitem_def init_def
      ten_initializer_def update_node_def tens_graph_def)

theorem initialize_graph_topology_witness:
  "initialize_graph ten_initializer example_model = (Inr (), example_model\<lparr>graph := Graph tens_graph\<rparr>)
   \<and> number_of_nodes tens_graph = 3
   \<and> number_of_edges tens_graph = 3 * (3 - 1) div 2
   \<and> has_edge tens_graph 0 1 \<and> has_edge tens_graph 0 2 \<and> has_edge tens_graph 1 2
   \<and> (\<exists>g. graph (example_model\<lparr>graph := Graph tens_graph\<rparr>) = Graph g \<and> number_of_nodes g = 3
         \<and> edges g = edges (complete_graph 3) \<and> number_of_edges g = 3 * (3 - 1) div 2)"
proof -
  have p: "parameters example_model ''num_nodes'' = Some (PyInt (int 3))"
    "parameters example_model ''graph_type'' = Some (PyStr ''complete'')"
    by (simp_all add: example_model_def set_timestep_function_def set_initial_data_function_def
        setitem_def init_def)
  from initialize_graph_topology[OF reads_only_ten p initialize_example]
  have e: "\<exists>g. graph (example_model\<lparr>graph := Graph tens_graph\<rparr>) = Graph g \<and> number_of_nodes g = 3
         \<and> edges g = edges (complete_graph 3) \<and> number_of_edges g = 3 * (3 - 1) div 2"
    by auto
  have c: "number_of_nodes tens_graph = 3 \<and> number_of_edges tens_graph = 3 * (3 - 1) div 2
    \<and> has_edge tens_graph 0 1 \<and> has_edge tens_graph 0 2 \<and> has_edge tens_graph 1 2"
    by (simp add: tens_graph_def number_of_nodes_def number_of_edges_def has_edge_def)
  from initialize_example c e show ?thesis by blast
qed

lemma cycle_graph_4:
  "cycle_graph 4 = \<lparr> nodes = [(0, Map.empty), (1, Map.empty), (2, Map.empty), (3, Map.empty)],
                     edges = [(0, 1), (1, 2), (2, 3), (3, 0)] \<rparr>"
  by (simp add: cycle_graph_def empty_graph_def add_edges_from_def add_edge_def has_edge_def
      pairwise_cyclic_def upt_rec numeral_Bit0 numeral_Bit1)

text \<open>
  The claim as first stated is about every successful call, whatever the initializer
  does. The initializer receives the
  model and nothing keeps it from changing the graph it is populating: with \<open>num_nodes\<close>
  \<open>4\<close> and \<open>graph_type\<close> \<open>"cycle"\<close>, an initializer that joins the nodes \<open>0\<close> and \<open>2\<close>
  through the graph handle and returns \<open>id = 10\<close> lets the call return, and the model
  holds a graph with five edges, which is not the cycle on four nodes.
\<close>

theorem initialize_graph_rewired_counterexample:
  "parameters cycle_model ''num_nodes'' = Some (PyInt 4)
   \<and> parameters cycle_model ''graph_type'' = Some (PyStr ''cycle'')
   \<and> initialize_graph rewiring_initializer cycle_model = (Inr (), cycle_model\<lparr>graph := Graph rewired_graph\<rparr>)
   \<and> number_of_edges rewired_graph = 5
   \<and> number_of_edges (cycle_graph 4) = 4
   \<and> has_edge rewired_graph 0 2
   \<and> \<not> has_edge (cycle_graph 4) 0 2"
  by (simp add: initialize_graph_def getitem_def nx_cycle_graph_def Let_def cycle_graph_4
      cycle_model_def set_initial_data_function_def setitem_def init_def
      rewiring_initializer_def update_node_def add_edge_def has_edge_def rewired_graph_def
      number_of_edges_def)

text \<open>
  C1 (as amended). With no initializer set and a node count the generators accept,
  \<^verbatim>\<open>initialize_graph()\<close> raises the precondition error after it has replaced the graph:
  the model then holds the freshly generated graph for the current \<open>num_nodes\<close> and
  \<open>graph_type\<close>, every node record empty, whatever graph was set before. Nothing else of
  the model changes.
\<close>

theorem initialize_graph_without_initializer:
  assumes "initial_data_function m = None"
    and "parameters m ''num_nodes'' = Some num_nodes"
    and "parameters m ''graph_type'' = Some graph_type"
    and "nodes_or_number num_nodes = Inr n"
  shows "initialize_graph call m =
           (Inl (PyException ''Initial data function is not set.''),
            m\<lparr>graph := Graph (if graph_type = PyStr ''complete'' then complete_graph n
                               else if graph_type = PyStr ''cycle'' then cycle_graph n
                               else wheel_graph n)\<rparr>)
       \<and> nodes (if graph_type = PyStr ''complete'' then complete_graph n
                 else if graph_type = PyStr ''cycle'' then cycle_graph n
                 else wheel_graph n) = map (\<lambda>i. (i, Map.empty)) [0..<n]"
  using assms by (simp add: initialize_graph_def getitem_def nx_complete_graph_def nx_cycle_graph_def nx_wheel_graph_def Let_def)

theorem initialize_graph_without_initializer_witness:
  "initialize_graph ten_initializer lone_node_model =
           (Inl (PyException ''Initial data function is not set.''),
            lone_node_model\<lparr>graph := Graph (complete_graph 3)\<rparr>)
   \<and> nodes (complete_graph 3) = map (\<lambda>i. (i, Map.empty)) [0..<3]"
  using initialize_graph_without_initializer[of lone_node_model "PyInt 3" "PyStr ''complete''" 3 ten_initializer]
  by (simp add: lone_node_model_def set_graph_def init_def)

text \<open>
  The claim as first stated has the failed call leave the previously set graph in place.
  A model holding a one-node graph whose node carries \<open>id = 7\<close>, with the default
  parameters and no initializer: the call raises the precondition error and the model
  holds the complete graph on three nodes with empty records.
\<close>

theorem initialize_graph_discards_graph_counterexample:
  "initial_data_function lone_node_model = None
   \<and> graph lone_node_model = Graph lone_node
   \<and> fst (initialize_graph ten_initializer lone_node_model) =
       Inl (PyException ''Initial data function is not set.'')
   \<and> graph (snd (initialize_graph ten_initializer lone_node_model)) =
       Graph \<lparr> nodes = [(0, Map.empty), (1, Map.empty), (2, Map.empty)],
               edges = [(0, 1), (0, 2), (1, 2)] \<rparr>
   \<and> graph (snd (initialize_graph ten_initializer lone_node_model)) \<noteq> graph lone_node_model"
  by (simp add: initialize_graph_def getitem_def nx_complete_graph_def nx_cycle_graph_def nx_wheel_graph_def Let_def complete_graph_3
      lone_node_model_def set_graph_def init_def lone_node_def)

section \<open>The convergence test\<close>

text \<open>
  \<^verbatim>\<open>is_converged\<close> hands the library the values at the key of all the nodes, in node
  order, and returns the library's answer; it needs a graph in the slot.
\<close>

lemma is_converged_values:
  assumes "graph m = Graph g"
    and "map (\<lambda>(node, node_data). node_data k) (nodes g) = map Some vals"
  shows "is_converged std_le m (PyStr k) std_dev = std_le vals std_dev"
proof -
  have "lookup_all (PyStr k) ns = Inr vals" if "map (\<lambda>(node, node_data). node_data k) ns = map Some vals"
    for ns vals using that
    by (induction ns arbitrary: vals) (auto split: prod.splits)
  then have l: "lookup_all (PyStr k) (nodes g) = Inr vals" using assms(2) by simp
  show ?thesis by (simp add: is_converged_def assms(1) l)
qed

lemma is_converged_graph:
  "is_converged std_le m data_key std_dev = Inr c \<Longrightarrow> \<exists>g. graph m = Graph g"
  by (cases "graph m") (simp_all add: is_converged_def)

lemmas example_defs =
  example_model_def set_timestep_function_def set_initial_data_function_def setitem_def init_def
  set_graph_def change_max_timesteps_def

lemma spread_not_converged:
  "graph m = Graph spread_graph \<Longrightarrow> is_converged exact_std_le m (PyStr ''id'') (PyInt 10) = Inr False"
  using is_converged_values[of m spread_graph "''id''" "[PyInt 1, PyInt 100]" exact_std_le "PyInt 10"]
  by (simp add: spread_graph_def exact_std_le_def)

lemma leveled_converged:
  "graph m = Graph leveled_graph \<Longrightarrow> is_converged exact_std_le m (PyStr ''id'') (PyInt 10) = Inr True"
  using is_converged_values[of m leveled_graph "''id''" "[PyInt 10, PyInt 10]" exact_std_le "PyInt 10"]
  by (simp add: leveled_graph_def exact_std_le_def)

lemma tens_converged:
  "graph m = Graph tens_graph \<Longrightarrow> is_converged exact_std_le m (PyStr ''id'') (PyInt 0) = Inr True"
  using is_converged_values[of m tens_graph "''id''" "[PyInt 10, PyInt 10, PyInt 10]" exact_std_le "PyInt 0"]
  by (simp add: tens_graph_def exact_std_le_def)

lemma spread_model_simps:
  "graph spread_model = Graph spread_graph"
  "parameters spread_model ''convergence_data_key'' = Some (PyStr ''id'')"
  "parameters spread_model ''convergence_std_dev'' = Some (PyInt 10)"
  "timestep_function spread_model = Some ()"
  "MAX_TIMESTEPS spread_model = 100000"
  by (simp_all add: spread_model_def example_defs spread_graph_def)

section \<open>Running to convergence\<close>

lemma change_max_timesteps_simps [simp]:
  "parameters (change_max_timesteps b m) = parameters m"
  "graph (change_max_timesteps b m) = graph m"
  "timestep_function (change_max_timesteps b m) = timestep_function m"
  "initial_data_function (change_max_timesteps b m) = initial_data_function m"
  "MAX_TIMESTEPS (change_max_timesteps b m) = b"
  by (simp_all add: change_max_timesteps_def)

lemma timestep_keeps_bound:
  "keeps_bound step \<Longrightarrow> MAX_TIMESTEPS (snd (timestep step m)) = MAX_TIMESTEPS m"
  by (simp add: timestep_def keeps_bound_def split: option.splits)

lemma after_steps_keeps_bound:
  "keeps_bound step \<Longrightarrow> MAX_TIMESTEPS (after_steps step i m) = MAX_TIMESTEPS m"
  by (induction i arbitrary: m) (simp_all add: timestep_keeps_bound)

lemma converge_loop_exit:
  "\<not> time < MAX_TIMESTEPS m \<Longrightarrow> converge_loop std_le step dk sd time m = Some (Inr time, m)"
  by (subst converge_loop.simps) simp

lemma converge_loop_converged:
  "time < MAX_TIMESTEPS m \<Longrightarrow> is_converged std_le m dk sd = Inr True \<Longrightarrow>
   converge_loop std_le step dk sd time m = Some (Inr time, m)"
  by (subst converge_loop.simps) simp

lemma converge_loop_check_fails:
  "time < MAX_TIMESTEPS m \<Longrightarrow> is_converged std_le m dk sd = Inl e \<Longrightarrow>
   converge_loop std_le step dk sd time m = Some (Inl e, m)"
  by (subst converge_loop.simps) simp

lemma converge_loop_step_fails:
  "time < MAX_TIMESTEPS m \<Longrightarrow> is_converged std_le m dk sd = Inr False \<Longrightarrow>
   fst (timestep step m) = Inl e \<Longrightarrow>
   converge_loop std_le step dk sd time m = Some (Inl e, snd (timestep step m))"
  by (subst converge_loop.simps) (simp add: case_prod_beta)

lemma converge_loop_print_fails:
  "time < MAX_TIMESTEPS m \<Longrightarrow> is_converged std_le m dk sd = Inr False \<Longrightarrow>
   fst (timestep step m) = Inr u \<Longrightarrow> nodes_data (snd (timestep step m)) = Inl e \<Longrightarrow>
   converge_loop std_le step dk sd time m = Some (Inl e, snd (timestep step m))"
  by (subst converge_loop.simps) (simp add: case_prod_beta)

lemma converge_loop_next:
  "time < MAX_TIMESTEPS m \<Longrightarrow> is_converged std_le m dk sd = Inr False \<Longrightarrow>
   fst (timestep step m) = Inr u \<Longrightarrow> nodes_data (snd (timestep step m)) = Inr ns \<Longrightarrow>
   converge_loop std_le step dk sd time m = converge_loop std_le step dk sd (time + 1) (snd (timestep step m))"
  by (subst converge_loop.simps) (simp add: case_prod_beta)

lemma converge_loop_cases:
  obtains (exit) "\<not> time < MAX_TIMESTEPS m"
  | (converged) "time < MAX_TIMESTEPS m" "is_converged std_le m dk sd = Inr True"
  | (check_fails) e where "time < MAX_TIMESTEPS m" "is_converged std_le m dk sd = Inl e"
  | (step_fails) e where "time < MAX_TIMESTEPS m" "is_converged std_le m dk sd = Inr False"
      "fst (timestep step m) = Inl e"
  | (print_fails) u e where "time < MAX_TIMESTEPS m" "is_converged std_le m dk sd = Inr False"
      "fst (timestep step m) = Inr u" "nodes_data (snd (timestep step m)) = Inl e"
  | (again) u ns where "time < MAX_TIMESTEPS m" "is_converged std_le m dk sd = Inr False"
      "fst (timestep step m) = Inr u" "nodes_data (snd (timestep step m)) = Inr ns"
proof (cases "time < MAX_TIMESTEPS m")
  case False
  then show ?thesis by (rule exit)
next
  case lt: True
  show ?thesis
  proof (cases "is_converged std_le m dk sd")
    case (Inl e)
    with lt show ?thesis by (rule check_fails)
  next
    case (Inr c)
    show ?thesis
    proof (cases c)
      case True
      with lt Inr show ?thesis by (intro converged) simp_all
    next
      case False
      with Inr have nc: "is_converged std_le m dk sd = Inr False" by simp
      show ?thesis
      proof (cases "fst (timestep step m)")
        case (Inl e)
        with lt nc show ?thesis by (rule step_fails)
      next
        case u: (Inr u)
        show ?thesis
        proof (cases "nodes_data (snd (timestep step m))")
          case (Inl e)
          with lt nc u show ?thesis by (rule print_fails)
        next
          case (Inr ns)
          with lt nc u show ?thesis by (rule again)
        qed
      qed
    qed
  qed
qed

lemma converge_loop_returns:
  assumes "keeps_bound step"
  shows "\<exists>r. converge_loop std_le step dk sd time m = Some r"
proof (induction "nat (MAX_TIMESTEPS m - time)" arbitrary: time m rule: less_induct)
  case less
  show ?case
  proof (cases rule: converge_loop_cases[where std_le=std_le and time=time and m=m and dk=dk and sd=sd and step=step])
    case exit
    then show ?thesis by (simp add: converge_loop_exit)
  next
    case converged
    then show ?thesis by (simp add: converge_loop_converged)
  next
    case (check_fails e)
    then show ?thesis by (simp add: converge_loop_check_fails)
  next
    case (step_fails e)
    then show ?thesis by (simp add: converge_loop_step_fails)
  next
    case (print_fails u e)
    then show ?thesis by (simp add: converge_loop_print_fails)
  next
    case (again u ns)
    let ?m = "snd (timestep step m)"
    have "nat (MAX_TIMESTEPS ?m - (time + 1)) < nat (MAX_TIMESTEPS m - time)"
      using again(1) timestep_keeps_bound[OF assms, of m] by simp
    from less[OF this] show ?thesis
      using converge_loop_next[OF again] by simp
  qed
qed

lemma converge_loop_success:
  assumes "keeps_bound step"
    and "converge_loop std_le step dk sd time m = Some (Inr t, m')"
  shows "\<exists>i. t = time + int i \<and> m' = after_steps step i m
           \<and> (\<forall>j<i. is_converged std_le (after_steps step j m) dk sd = Inr False)
           \<and> (t < MAX_TIMESTEPS m \<and> is_converged std_le m' dk sd = Inr True
              \<or> t = max time (MAX_TIMESTEPS m))"
  using assms(2)
proof (induction "nat (MAX_TIMESTEPS m - time)" arbitrary: time m rule: less_induct)
  case less
  show ?case
  proof (cases rule: converge_loop_cases[where std_le=std_le and time=time and m=m and dk=dk and sd=sd and step=step])
    case exit
    with less.prems have "t = time" "m' = m" by (simp_all add: converge_loop_exit)
    with exit show ?thesis by (intro exI[of _ 0]) simp
  next
    case converged
    with less.prems have "t = time" "m' = m" by (simp_all add: converge_loop_converged)
    with converged show ?thesis by (intro exI[of _ 0]) simp
  next
    case (check_fails e)
    with less.prems show ?thesis by (simp add: converge_loop_check_fails)
  next
    case (step_fails e)
    with less.prems show ?thesis by (simp add: converge_loop_step_fails)
  next
    case (print_fails u e)
    with less.prems show ?thesis by (simp add: converge_loop_print_fails)
  next
    case (again u ns)
    let ?m = "snd (timestep step m)"
    have bound: "MAX_TIMESTEPS ?m = MAX_TIMESTEPS m"
      by (rule timestep_keeps_bound[OF assms(1)])
    have dec: "nat (MAX_TIMESTEPS ?m - (time + 1)) < nat (MAX_TIMESTEPS m - time)"
      using again(1) bound by simp
    have run: "converge_loop std_le step dk sd (time + 1) ?m = Some (Inr t, m')"
      using less.prems converge_loop_next[OF again] by simp
    from less.hyps[OF dec run] obtain i where i:
      "t = time + 1 + int i" "m' = after_steps step i ?m"
      "\<forall>j<i. is_converged std_le (after_steps step j ?m) dk sd = Inr False"
      "t < MAX_TIMESTEPS ?m \<and> is_converged std_le m' dk sd = Inr True \<or> t = max (time + 1) (MAX_TIMESTEPS ?m)"
      by blast
    have "\<forall>j<Suc i. is_converged std_le (after_steps step j m) dk sd = Inr False"
    proof (intro allI impI)
      fix j assume "j < Suc i"
      then show "is_converged std_le (after_steps step j m) dk sd = Inr False"
        using i(3) again(2) by (cases j) simp_all
    qed
    moreover have "t < MAX_TIMESTEPS m \<and> is_converged std_le m' dk sd = Inr True \<or> t = max time (MAX_TIMESTEPS m)"
      using i(4) bound again(1) by auto
    ultimately show ?thesis
      using i(1,2) by (intro exI[of _ "Suc i"]) simp
  qed
qed

lemma run_to_convergence_loop:
  assumes "parameters m ''convergence_data_key'' = Some data_key" and "truthy (Val data_key)"
    and "parameters m ''convergence_std_dev'' = Some std_dev"
  shows "run_to_convergence std_le step m =
           (case graph m of
              Val v \<Rightarrow> Some (Inl AttributeError, m)
            | Graph g \<Rightarrow> converge_loop std_le step data_key std_dev 0 m)"
  using assms by (simp add: run_to_convergence_def getitem_def nodes_data_def split: pyobj.splits)

lemma falsy_values:
  "\<not> truthy (Val v) \<longleftrightarrow> v = PyNone \<or> v = PyBool False \<or> v = PyInt 0 \<or> v = PyStr []"
  by (cases v) auto

lemma keeps_bound_idle: "keeps_bound idle_step"
  by (simp add: keeps_bound_def idle_step_def)

lemma keeps_bound_level: "keeps_bound level_step"
  by (simp add: keeps_bound_def level_step_def split: pyobj.splits)

lemma level_spread:
  "timestep level_step spread_model = (Inr (), spread_model\<lparr>graph := Graph leveled_graph\<rparr>)"
  by (simp add: timestep_def level_step_def spread_model_simps)
     (simp add: spread_graph_def leveled_graph_def)

lemma run_level_spread:
  "run_to_convergence exact_std_le level_step spread_model = Some (Inr 1, spread_model\<lparr>graph := Graph leveled_graph\<rparr>)"
proof -
  have "converge_loop exact_std_le level_step (PyStr ''id'') (PyInt 10) 0 spread_model =
        converge_loop exact_std_le level_step (PyStr ''id'') (PyInt 10) (0 + 1) (snd (timestep level_step spread_model))"
    by (rule converge_loop_next[where u="()" and ns="nodes leveled_graph"])
       (simp_all add: spread_model_simps spread_not_converged level_spread nodes_data_def)
  also have "\<dots> = Some (Inr 1, spread_model\<lparr>graph := Graph leveled_graph\<rparr>)"
    by (simp add: level_spread converge_loop_converged leveled_converged spread_model_simps)
  finally show ?thesis
    by (simp add: run_to_convergence_def getitem_def spread_model_simps nodes_data_def)
qed

lemma run_nonpositive_bound:
  assumes "b \<le> 0"
  shows "run_to_convergence exact_std_le idle_step (change_max_timesteps b spread_model) =
           Some (Inr 0, change_max_timesteps b spread_model)"
proof -
  have "run_to_convergence exact_std_le idle_step (change_max_timesteps b spread_model) =
        converge_loop exact_std_le idle_step (PyStr ''id'') (PyInt 10) 0 (change_max_timesteps b spread_model)"
    by (simp add: run_to_convergence_def getitem_def nodes_data_def spread_model_simps)
  also have "\<dots> = Some (Inr 0, change_max_timesteps b spread_model)"
    using assms by (simp add: converge_loop_exit)
  finally show ?thesis .
qed

lemma idle_spread:
  "timestep idle_step (change_max_timesteps b spread_model) = (Inr (), change_max_timesteps b spread_model)"
  by (simp add: timestep_def idle_step_def spread_model_simps)

lemma run_idle_two:
  "run_to_convergence exact_std_le idle_step (change_max_timesteps 2 spread_model) =
     Some (Inr 2, change_max_timesteps 2 spread_model)"
proof -
  let ?m = "change_max_timesteps 2 spread_model"
  have g: "graph ?m = Graph spread_graph" and mx: "MAX_TIMESTEPS ?m = 2"
    by (simp_all add: spread_model_simps)
  have n: "nodes_data ?m = Inr (nodes spread_graph)" by (simp add: nodes_data_def spread_model_simps)
  have step: "converge_loop exact_std_le idle_step (PyStr ''id'') (PyInt 10) time ?m =
              converge_loop exact_std_le idle_step (PyStr ''id'') (PyInt 10) (time + 1) ?m" if "time < 2" for time
    using converge_loop_next[where time=time and m="?m" and std_le=exact_std_le and dk="PyStr ''id''"
        and sd="PyInt 10" and step=idle_step and u="()" and ns="nodes spread_graph"] that
    by (simp add: mx spread_not_converged[OF g] idle_spread n)
  have "run_to_convergence exact_std_le idle_step ?m = converge_loop exact_std_le idle_step (PyStr ''id'') (PyInt 10) 0 ?m"
    by (simp add: run_to_convergence_def getitem_def n spread_model_simps)
  also have "\<dots> = converge_loop exact_std_le idle_step (PyStr ''id'') (PyInt 10) 1 ?m"
    using step[of 0] by simp
  also have "\<dots> = converge_loop exact_std_le idle_step (PyStr ''id'') (PyInt 10) 2 ?m"
    using step[of 1] by simp
  also have "\<dots> = Some (Inr 2, ?m)"
    by (simp add: converge_loop_exit mx)
  finally show ?thesis .
qed

subsection \<open>A falsy data key\<close>

text \<open>
  C10. When the parameter \<open>convergence_data_key\<close> holds a falsy value, \<^verbatim>\<open>None\<close>,
  \<^verbatim>\<open>False\<close>, \<open>0\<close> or the empty string, \<^verbatim>\<open>run_to_convergence()\<close> raises the precondition
  error and the model is exactly as before: graph, parameters and bound. This holds
  whatever the stepper would do, whatever the numeric library would answer and whether or
  not a graph or a stepper is set (the convergence test fails without a graph, a timestep
  fails without a stepper), so neither has been invoked.
\<close>

theorem run_to_convergence_falsy_key:
  assumes "parameters m ''convergence_data_key'' = Some data_key"
    and "parameters m ''convergence_std_dev'' = Some std_dev"
    and "data_key = PyNone \<or> data_key = PyBool False \<or> data_key = PyInt 0 \<or> data_key = PyStr []"
  shows "run_to_convergence std_le step m = Some (Inl (PyException ''No convergence data key specified''), m)"
  using assms by (auto simp: run_to_convergence_def getitem_def)

theorem run_to_convergence_falsy_key_witness:
  "run_to_convergence exact_std_le idle_step (setitem ''convergence_data_key'' (PyStr []) init) =
     Some (Inl (PyException ''No convergence data key specified''),
           setitem ''convergence_data_key'' (PyStr []) init)
   \<and> run_to_convergence exact_std_le idle_step (setitem ''convergence_data_key'' (PyInt 0) init) =
     Some (Inl (PyException ''No convergence data key specified''),
           setitem ''convergence_data_key'' (PyInt 0) init)
   \<and> run_to_convergence exact_std_le idle_step init =
     Some (Inl (PyException ''No convergence data key specified''), init)"
  using run_to_convergence_falsy_key[where m="setitem ''convergence_data_key'' (PyStr []) init" and data_key="PyStr []"
      and std_dev="PyInt 100" and std_le=exact_std_le and step=idle_step]
    run_to_convergence_falsy_key[where m="setitem ''convergence_data_key'' (PyInt 0) init" and data_key="PyInt 0"
      and std_dev="PyInt 100" and std_le=exact_std_le and step=idle_step]
    run_to_convergence_falsy_key[where m=init and data_key=PyNone
      and std_dev="PyInt 100" and std_le=exact_std_le and step=idle_step]
  by (simp add: setitem_def init_def)

subsection \<open>The value returned\<close>

text \<open>
  C2 (as amended). Let the data key be truthy and let the stepper leave the bound alone;
  the convergence test is \<^verbatim>\<open>is_converged\<close> with whatever the numeric library answers.
  Then \<^verbatim>\<open>run_to_convergence()\<close> ends, by a return or an exception. When the initial
  state satisfies the convergence test it returns \<open>0\<close> and the model is untouched. When it
  returns \<open>t\<close>, the model is the one reached after \<open>t\<close> timesteps, no state before time
  \<open>t\<close> satisfies the test, and either the state at time \<open>t\<close> satisfies it, so that \<open>t\<close> is
  the first such time, or \<open>t\<close> is the bound, read as \<open>0\<close> when it is negative.
\<close>

theorem run_to_convergence_first_converged:
  assumes "keeps_bound step"
    and "parameters m ''convergence_data_key'' = Some data_key" and "truthy (Val data_key)"
    and "parameters m ''convergence_std_dev'' = Some std_dev"
  shows "(\<exists>r. run_to_convergence std_le step m = Some r)
     \<and> (is_converged std_le m data_key std_dev = Inr True \<longrightarrow> run_to_convergence std_le step m = Some (Inr 0, m))
     \<and> (run_to_convergence std_le step m = Some (Inr t, m') \<longrightarrow>
          0 \<le> t \<and> m' = after_steps step (nat t) m
          \<and> (\<forall>j<nat t. is_converged std_le (after_steps step j m) data_key std_dev = Inr False)
          \<and> (is_converged std_le m' data_key std_dev = Inr True \<and> t < MAX_TIMESTEPS m
              \<or> t = max 0 (MAX_TIMESTEPS m)))"
proof (intro conjI impI)
  note run = run_to_convergence_loop[OF assms(2-4), where std_le=std_le and step=step]
  show "\<exists>r. run_to_convergence std_le step m = Some r"
    using converge_loop_returns[OF assms(1), where std_le=std_le and dk=data_key and sd=std_dev and time=0 and m=m]
    by (cases "graph m") (simp_all add: run)
  {
    assume c: "is_converged std_le m data_key std_dev = Inr True"
    then obtain g where "graph m = Graph g" using is_converged_graph by blast
    then have "run_to_convergence std_le step m = converge_loop std_le step data_key std_dev 0 m"
      by (simp add: run)
    then show "run_to_convergence std_le step m = Some (Inr 0, m)"
      using c by (cases "0 < MAX_TIMESTEPS m") (simp_all add: converge_loop_converged converge_loop_exit)
  }
  assume r: "run_to_convergence std_le step m = Some (Inr t, m')"
  then have "converge_loop std_le step data_key std_dev 0 m = Some (Inr t, m')"
    by (cases "graph m") (simp_all add: run)
  from converge_loop_success[OF assms(1) this] obtain i where i:
    "t = 0 + int i" "m' = after_steps step i m"
    "\<forall>j<i. is_converged std_le (after_steps step j m) data_key std_dev = Inr False"
    "t < MAX_TIMESTEPS m \<and> is_converged std_le m' data_key std_dev = Inr True \<or> t = max 0 (MAX_TIMESTEPS m)"
    by blast
  from i(1) have n: "nat t = i" by simp
  show "0 \<le> t" using i(1) by simp
  show "m' = after_steps step (nat t) m" using i(2) n by simp
  show "\<forall>j<nat t. is_converged std_le (after_steps step j m) data_key std_dev = Inr False"
    using i(3) n by simp
  show "is_converged std_le m' data_key std_dev = Inr True \<and> t < MAX_TIMESTEPS m \<or> t = max 0 (MAX_TIMESTEPS m)"
    using i(4) by blast
qed

theorem run_to_convergence_first_converged_witness:
  "run_to_convergence exact_std_le level_step spread_model = Some (Inr 1, spread_model\<lparr>graph := Graph leveled_graph\<rparr>)
   \<and> spread_model\<lparr>graph := Graph leveled_graph\<rparr> = after_steps level_step (nat 1) spread_model
   \<and> is_converged exact_std_le (after_steps level_step 0 spread_model) (PyStr ''id'') (PyInt 10) = Inr False
   \<and> is_converged exact_std_le (spread_model\<lparr>graph := Graph leveled_graph\<rparr>) (PyStr ''id'') (PyInt 10) = Inr True
   \<and> run_to_convergence exact_std_le idle_step (example_model\<lparr>graph := Graph tens_graph\<rparr>) =
        Some (Inr 0, example_model\<lparr>graph := Graph tens_graph\<rparr>)"
proof -
  have a: "0 \<le> (1::int) \<and> spread_model\<lparr>graph := Graph leveled_graph\<rparr> = after_steps level_step (nat 1) spread_model
     \<and> (\<forall>j<nat 1. is_converged exact_std_le (after_steps level_step j spread_model) (PyStr ''id'') (PyInt 10) = Inr False)"
    using run_to_convergence_first_converged[OF keeps_bound_level spread_model_simps(2) _ spread_model_simps(3),
        where std_le=exact_std_le and t=1 and m'="spread_model\<lparr>graph := Graph leveled_graph\<rparr>"] run_level_spread
    by simp
  have p: "parameters (example_model\<lparr>graph := Graph tens_graph\<rparr>) ''convergence_data_key'' = Some (PyStr ''id'')"
    "parameters (example_model\<lparr>graph := Graph tens_graph\<rparr>) ''convergence_std_dev'' = Some (PyInt 0)"
    by (simp_all add: example_defs)
  have b: "run_to_convergence exact_std_le idle_step (example_model\<lparr>graph := Graph tens_graph\<rparr>) =
        Some (Inr 0, example_model\<lparr>graph := Graph tens_graph\<rparr>)"
  proof -
    have "is_converged exact_std_le (example_model\<lparr>graph := Graph tens_graph\<rparr>) (PyStr ''id'') (PyInt 0) = Inr True"
      by (simp add: tens_converged)
    with run_to_convergence_first_converged[OF keeps_bound_idle p(1) _ p(2), where std_le=exact_std_le] show ?thesis
      by simp
  qed
  have c: "is_converged exact_std_le (spread_model\<lparr>graph := Graph leveled_graph\<rparr>) (PyStr ''id'') (PyInt 10) = Inr True"
    by (simp add: leveled_converged)
  from a b c run_level_spread show ?thesis by simp
qed

text \<open>
  The claim as first stated returns the bound itself when no visited state satisfies the
  test. With the bound \<open>-1\<close> and the values \<open>1, 100\<close> against the threshold \<open>10\<close>, the
  initial state does not satisfy the test and the call returns \<open>0\<close>.
\<close>

theorem run_to_convergence_negative_bound_counterexample:
  "run_to_convergence exact_std_le idle_step (change_max_timesteps (- 1) spread_model) =
     Some (Inr 0, change_max_timesteps (- 1) spread_model)
   \<and> is_converged exact_std_le (change_max_timesteps (- 1) spread_model) (PyStr ''id'') (PyInt 10) = Inr False
   \<and> MAX_TIMESTEPS (change_max_timesteps (- 1) spread_model) = - 1
   \<and> (0 :: int) \<noteq> - 1"
  using run_nonpositive_bound[of "- 1"]
  by (simp add: spread_not_converged spread_model_simps)

subsection \<open>The bound\<close>

text \<open>
  C3 (as amended). Let the bound \<open>b\<close> be installed by \<^verbatim>\<open>change_max_timesteps\<close>, the data
  key be truthy and the stepper leave the bound alone. A call of
  \<^verbatim>\<open>run_to_convergence()\<close> that returns, returns a count between \<open>0\<close> and the larger of
  \<open>0\<close> and \<open>b\<close>, so at most \<open>b\<close> when \<open>b\<close> is not negative. With \<open>b\<close> zero or negative
  and a graph set, the call returns \<open>0\<close> at once and the model is untouched, whether or
  not the convergence test holds.
\<close>

theorem run_to_convergence_within_bound:
  assumes "keeps_bound step"
    and "parameters m ''convergence_data_key'' = Some data_key" and "truthy (Val data_key)"
    and "parameters m ''convergence_std_dev'' = Some std_dev"
  shows "(run_to_convergence std_le step (change_max_timesteps b m) = Some (Inr t, m') \<longrightarrow> 0 \<le> t \<and> t \<le> max 0 b)
     \<and> (0 \<le> b \<and> run_to_convergence std_le step (change_max_timesteps b m) = Some (Inr t, m') \<longrightarrow> t \<le> b)
     \<and> (b \<le> 0 \<and> isinstance_Graph (graph m) \<longrightarrow>
          run_to_convergence std_le step (change_max_timesteps b m) = Some (Inr 0, change_max_timesteps b m))"
proof -
  let ?m = "change_max_timesteps b m"
  have p: "parameters ?m ''convergence_data_key'' = Some data_key"
    "parameters ?m ''convergence_std_dev'' = Some std_dev"
    and mx: "MAX_TIMESTEPS ?m = b" and gr: "graph ?m = graph m"
    using assms by (simp_all add: change_max_timesteps_def)
  note run = run_to_convergence_loop[OF p(1) assms(3) p(2), where std_le=std_le and step=step]
  have 1: "0 \<le> t \<and> t \<le> max 0 b" if r: "run_to_convergence std_le step ?m = Some (Inr t, m')"
  proof -
    from r have "converge_loop std_le step data_key std_dev 0 ?m = Some (Inr t, m')"
      by (cases "graph m") (simp_all add: run gr)
    from converge_loop_success[OF assms(1) this] mx show ?thesis by auto
  qed
  have 3: "run_to_convergence std_le step ?m = Some (Inr 0, ?m)" if "b \<le> 0" "isinstance_Graph (graph m)"
  proof -
    from that(2) obtain g where "graph m = Graph g" by (cases "graph m") simp_all
    then have "run_to_convergence std_le step ?m = converge_loop std_le step data_key std_dev 0 ?m"
      by (simp add: run gr)
    then show ?thesis using that(1) mx by (simp add: converge_loop_exit)
  qed
  from 1 3 show ?thesis by auto
qed

theorem run_to_convergence_within_bound_witness:
  "run_to_convergence exact_std_le idle_step (change_max_timesteps 2 spread_model) =
     Some (Inr 2, change_max_timesteps 2 spread_model)
   \<and> (2 :: int) \<le> max 0 2
   \<and> run_to_convergence exact_std_le idle_step (change_max_timesteps 0 spread_model) =
     Some (Inr 0, change_max_timesteps 0 spread_model)"
  using run_to_convergence_within_bound[OF keeps_bound_idle spread_model_simps(2) _ spread_model_simps(3),
      where std_le=exact_std_le and b=2 and t=2 and m'="change_max_timesteps 2 spread_model"]
    run_to_convergence_within_bound[OF keeps_bound_idle spread_model_simps(2) _ spread_model_simps(3),
      where std_le=exact_std_le and b=0 and t=0 and m'="change_max_timesteps 0 spread_model"]
    run_idle_two
  by (simp add: spread_model_simps)

text \<open>
  The claim as first stated bounds the count by \<open>b\<close> for negative \<open>b\<close> too. With the bound
  \<open>-5\<close> the call returns \<open>0\<close>, which is above the bound.
\<close>

theorem run_to_convergence_exceeds_negative_bound_counterexample:
  "run_to_convergence exact_std_le idle_step (change_max_timesteps (- 5) spread_model) =
     Some (Inr 0, change_max_timesteps (- 5) spread_model)
   \<and> MAX_TIMESTEPS (change_max_timesteps (- 5) spread_model) = - 5
   \<and> \<not> (0 \<le> MAX_TIMESTEPS (change_max_timesteps (- 5) spread_model))"
  using run_nonpositive_bound[of "- 5"]
  by simp

end
